theory Spec2Isabelle
  imports Main
begin

section \<open>cesa::vector: a fixed-capacity vector\<close>

text \<open>
  A shallow embedding of \<^verbatim>\<open>include/cesa/vector.hpp\<close>. The class template
  \<^verbatim>\<open>cesa::vector<T, max_elements>\<close> becomes a record over the element type \<open>'a\<close>;
  the template parameter \<^verbatim>\<open>max_elements\<close> is the argument \<open>N\<close> of every operation
  that names it, and the properties of \<open>T\<close> the behaviour depends on are the fields of
  \<open>traits\<close>.

  Modelling decisions:
  \<^item> The byte array \<^verbatim>\<open>storage_\<close> is a list of \<open>N\<close> slots. A slot is \<open>Some x\<close> while it
    holds an object with value \<open>x\<close>, and \<open>None\<close> while it holds none (never constructed,
    or its destructor has been called).
  \<^item> Pointers and iterators into the storage are slot indices: \<^verbatim>\<open>data()\<close> and
    \<^verbatim>\<open>begin()\<close> are \<open>0\<close>, \<^verbatim>\<open>end()\<close> is the live count, \<^verbatim>\<open>ptr_at(i)\<close> is \<open>i\<close>.
    A returned reference is the index of the slot it denotes.
  \<^item> \<^verbatim>\<open>std::size_t\<close> is \<open>nat\<close>. The code subtracts from the count in
    \<^verbatim>\<open>pop_back\<close> (guarded by \<^verbatim>\<open>size_ > 0\<close>) and in the range \<^verbatim>\<open>erase\<close>; the theorems about
    the latter assume a valid range, where the subtraction does not wrap.
  \<^item> A move assignment \<^verbatim>\<open>*d = std::move(*s)\<close> gives the target slot the value of the
    source slot; the moved-from slot keeps an object (with the value it had, as for
    \<^verbatim>\<open>int\<close>). It runs \<open>T\<close>'s assignment operator on the target, so it is defined only
    where the source slot holds an object and the target slot holds one too, unless
    \<open>T\<close> is an implicit-lifetime type, whose objects exist in the byte array without a
    constructor call.
  \<^item> An argument of an insertion is a reference: to an object outside the vector, or
    to one of the vector's own elements. It is read when the new element is
    constructed, which is after the shift.
  \<^item> A call replies by returning, by throwing, or its behaviour is undefined. The
    reply comes with the state of the vector: after a \<^verbatim>\<open>throw\<close> the state at that
    moment; where the behaviour is undefined, the state the statements of the function
    leave when each does what it is written to do.
\<close>

subsection \<open>Exceptions and replies\<close>

datatype cpp_exception = Exception (exn_type: string) (what: string)

definition out_of_range :: "string \<Rightarrow> cpp_exception" where
  \<comment> \<open>\<^verbatim>\<open>std::out_of_range(msg)\<close>\<close>
  "out_of_range msg = Exception ''std::out_of_range'' msg"

definition IndexOutOfRange :: cpp_exception where
  \<comment> \<open>the exception object thrown by \<^verbatim>\<open>at\<close>\<close>
  "IndexOutOfRange = out_of_range ''index out of range''"

definition CapacityExceeded :: cpp_exception where
  \<comment> \<open>the exception object thrown by \<^verbatim>\<open>emplace\<close>\<close>
  "CapacityExceeded = out_of_range ''vector capacity exceeded''"

datatype 'r reply = Returned 'r | Thrown cpp_exception | Undefined_behaviour

subsection \<open>The container\<close>

record traits =
  trivially_destructible :: bool    \<comment> \<open>\<^verbatim>\<open>std::is_trivially_destructible_v<value_type>\<close>\<close>
  default_constructible :: bool     \<comment> \<open>\<^verbatim>\<open>std::is_default_constructible_v<value_type>\<close>\<close>
  implicit_lifetime :: bool         \<comment> \<open>\<open>T\<close> is an implicit-lifetime type: a scalar such as
                                        \<^verbatim>\<open>int\<close> or a class with a trivial constructor and
                                        destructor; \<^verbatim>\<open>std::string\<close> is not one\<close>

record 'a vector =
  storage_m :: "'a option list"     \<comment> \<open>\<^verbatim>\<open>storage_\<close>\<close>
  size_m :: nat                     \<comment> \<open>\<^verbatim>\<open>size_\<close>\<close>
  max_size_m :: nat                 \<comment> \<open>\<^verbatim>\<open>max_size_\<close>\<close>

type_synonym ('a, 'r) result = "'r reply \<times> 'a vector"

datatype 'a cref = External 'a | Element nat

definition vector_default :: "nat \<Rightarrow> 'a vector" where
  \<comment> \<open>the defaulted constructor: the default member initialisers\<close>
  "vector_default N = \<lparr>storage_m = replicate N None, size_m = 0, max_size_m = N\<rparr>"

definition read_slot :: "'a option list \<Rightarrow> nat \<Rightarrow> 'a option" where
  \<comment> \<open>the object in slot \<open>i\<close>, if there is one; no object lies outside the storage\<close>
  "read_slot st i = (if i < length st then st ! i else None)"

definition ptr_at :: "nat \<Rightarrow> nat" where
  "ptr_at index = index"

definition data_v :: "'a vector \<Rightarrow> nat" where
  "data_v v = 0"

definition begin_v :: "'a vector \<Rightarrow> nat" where
  "begin_v v = data_v v"

definition cbegin_v :: "'a vector \<Rightarrow> nat" where
  "cbegin_v v = data_v v"

definition end_v :: "'a vector \<Rightarrow> nat" where
  "end_v v = data_v v + size_m v"

definition cend_v :: "'a vector \<Rightarrow> nat" where
  "cend_v v = data_v v + size_m v"

definition empty_v :: "'a vector \<Rightarrow> bool" where
  "empty_v v = (size_m v = 0)"

definition size_v :: "'a vector \<Rightarrow> nat" where
  "size_v v = size_m v"

definition max_size_v :: "'a vector \<Rightarrow> nat" where
  "max_size_v v = max_size_m v"

definition deref :: "'a vector \<Rightarrow> nat \<Rightarrow> 'a option" where
  \<comment> \<open>reading through a pointer, iterator or reference\<close>
  "deref v p = read_slot (storage_m v) p"

definition store :: "'a vector \<Rightarrow> nat \<Rightarrow> 'a \<Rightarrow> 'a vector" where
  \<comment> \<open>assigning through a reference returned by the non-const accessors\<close>
  "store v p x = v\<lparr>storage_m := (storage_m v)[p := Some x]\<rparr>"

definition contents :: "'a vector \<Rightarrow> 'a option list" where
  \<comment> \<open>the slots \<open>[begin(), end())\<close>, what iteration visits\<close>
  "contents v = take (size_m v) (storage_m v)"

definition vector_inv :: "nat \<Rightarrow> 'a vector \<Rightarrow> bool" where
  \<comment> \<open>the representation invariant of \<^verbatim>\<open>vector<T, N>\<close>\<close>
  "vector_inv N v = (length (storage_m v) = N \<and> size_m v \<le> N \<and> max_size_m v = N)"

definition all_live :: "'a vector \<Rightarrow> bool" where
  \<comment> \<open>every slot in \<open>[0, size())\<close> holds an object\<close>
  "all_live v = list_all (\<lambda>s. s \<noteq> None) (contents v)"

definition arg_value :: "'a option list \<Rightarrow> 'a cref \<Rightarrow> 'a option" where
  \<comment> \<open>the object an argument refers to, read in the storage \<open>st\<close> of the vector\<close>
  "arg_value st arg = (case arg of External x \<Rightarrow> Some x | Element p \<Rightarrow> read_slot st p)"

definition arg_valid :: "'a vector \<Rightarrow> 'a cref \<Rightarrow> bool" where
  \<comment> \<open>the argument refers to an object: outside the vector, or one of its elements\<close>
  "arg_valid v arg = (case arg of External x \<Rightarrow> True | Element p \<Rightarrow> p < size_m v)"

subsection \<open>Element access\<close>

definition operator_index :: "'a vector \<Rightarrow> nat \<Rightarrow> nat" where
  \<comment> \<open>\<^verbatim>\<open>operator[]\<close>: unchecked\<close>
  "operator_index v i = ptr_at i"

definition at_v :: "'a vector \<Rightarrow> nat \<Rightarrow> ('a, nat) result" where
  "at_v v pos =
     (if pos \<ge> size_m v then (Thrown (out_of_range ''index out of range''), v)
      else (Returned (ptr_at pos), v))"

definition front_v :: "'a vector \<Rightarrow> nat" where
  "front_v v = ptr_at 0"

definition back_v :: "'a vector \<Rightarrow> nat" where
  "back_v v = ptr_at (size_m v - 1)"

subsection \<open>The standard algorithms the modifiers call\<close>

definition assignment_defined :: "traits \<Rightarrow> 'a option list \<Rightarrow> nat \<Rightarrow> nat \<Rightarrow> bool" where
  \<comment> \<open>whether \<^verbatim>\<open>*d = std::move(*s)\<close> is defined in the storage \<open>st\<close>\<close>
  "assignment_defined tr st d s =
     (read_slot st s \<noteq> None \<and> (read_slot st d \<noteq> None \<or> implicit_lifetime tr))"

text \<open>
  \<^verbatim>\<open>std::move_backward(first, last, d_last)\<close>:
  \<^verbatim>\<open>while (first != last) *(--d_last) = std::move(*(--last));\<close>
  On a valid range \<open>first \<le> last\<close>, so \<open>first \<noteq> last\<close> is \<open>first < last\<close>. The result
  says whether every assignment was defined, and gives the storage the assignments
  leave.
\<close>

function move_backward ::
  "traits \<Rightarrow> 'a option list \<Rightarrow> nat \<Rightarrow> nat \<Rightarrow> nat \<Rightarrow> bool \<times> 'a option list" where
  "move_backward tr st first last_it d_last =
     (if first < last_it
      then (case move_backward tr (st[d_last - 1 := read_slot st (last_it - 1)])
                   first (last_it - 1) (d_last - 1) of
              (ok, st') \<Rightarrow> (assignment_defined tr st (d_last - 1) (last_it - 1) \<and> ok, st'))
      else (True, st))"
  by pat_completeness auto
termination
  by (relation "measure (\<lambda>(tr, st, first, last_it, d_last). last_it - first)") auto

declare move_backward.simps [simp del]

text \<open>
  \<^verbatim>\<open>std::move(first, last, d_first)\<close>:
  \<^verbatim>\<open>while (first != last) *d_first++ = std::move(*first++);\<close>
  The erase functions call it with source and target inside \<open>[begin(), end())\<close>.
\<close>

function move_range :: "'a option list \<Rightarrow> nat \<Rightarrow> nat \<Rightarrow> nat \<Rightarrow> 'a option list" where
  "move_range st first last_it d_first =
     (if first < last_it
      then move_range (st[d_first := read_slot st first]) (Suc first) last_it (Suc d_first)
      else st)"
  by pat_completeness auto
termination
  by (relation "measure (\<lambda>(st, first, last_it, d_first). last_it - first)") auto

declare move_range.simps [simp del]

subsection \<open>Modifiers\<close>

definition pop_back :: "traits \<Rightarrow> 'a vector \<Rightarrow> 'a vector" where
  "pop_back tr v =
     (if size_m v > 0
      then (let v1 = v\<lparr>size_m := size_m v - 1\<rparr>
            in if \<not> trivially_destructible tr
               then v1\<lparr>storage_m := (storage_m v1)[ptr_at (size_m v1) := None]\<rparr>
               else v1)
      else v)"

function clear_loop :: "traits \<Rightarrow> 'a vector \<Rightarrow> 'a vector" where
  \<comment> \<open>\<^verbatim>\<open>while (size_ > 0) pop_back();\<close>\<close>
  "clear_loop tr v = (if size_m v > 0 then clear_loop tr (pop_back tr v) else v)"
  by pat_completeness auto
termination
  by (relation "measure (\<lambda>(tr, v). size_m v)") (auto simp: pop_back_def Let_def)

declare clear_loop.simps [simp del]

definition clear :: "traits \<Rightarrow> 'a vector \<Rightarrow> 'a vector" where
  "clear tr v = (if trivially_destructible tr then v\<lparr>size_m := 0\<rparr> else clear_loop tr v)"

definition emplace :: "traits \<Rightarrow> nat \<Rightarrow> 'a vector \<Rightarrow> nat \<Rightarrow> 'a cref \<Rightarrow> ('a, nat) result" where
  \<comment> \<open>\<open>arg\<close> is what \<^verbatim>\<open>args\<close> refers to; \<^verbatim>\<open>value_type(std::forward<Args>(args)...)\<close> reads
      it in the placement \<^verbatim>\<open>new\<close>, after \<^verbatim>\<open>std::move_backward\<close> has run\<close>
  "emplace tr N v pos arg =
     (if size_m v \<ge> N then (Thrown (out_of_range ''vector capacity exceeded''), v)
      else
        (let index = (if pos = cend_v v then size_m v else pos - cbegin_v v);
             (ok, st1) = (if index < size_m v
                          then move_backward tr (storage_m v) (begin_v v + index) (end_v v)
                                 (end_v v + 1)
                          else (True, storage_m v));
             x = arg_value st1 arg;
             st2 = st1[ptr_at index := x];
             v' = v\<lparr>storage_m := st2, size_m := size_m v + 1\<rparr>
         in (if ok \<and> x \<noteq> None then Returned (begin_v v' + index) else Undefined_behaviour, v')))"

definition insert_v :: "traits \<Rightarrow> nat \<Rightarrow> 'a vector \<Rightarrow> nat \<Rightarrow> 'a cref \<Rightarrow> ('a, nat) result" where
  \<comment> \<open>\<^verbatim>\<open>insert(pos, value)\<close>, both overloads\<close>
  "insert_v tr N v pos arg = emplace tr N v pos arg"

fun insert_count_loop ::
  "traits \<Rightarrow> nat \<Rightarrow> 'a vector \<Rightarrow> nat \<Rightarrow> nat \<Rightarrow> 'a cref \<Rightarrow> ('a, nat) result" where
  \<comment> \<open>\<^verbatim>\<open>while (count-- > 0) { it = insert(it, value); ++it; } return it;\<close>
      \<^verbatim>\<open>value\<close> is a \<^verbatim>\<open>const value_type &\<close>, read anew by every \<^verbatim>\<open>insert\<close>\<close>
  "insert_count_loop tr N v it 0 arg = (Returned it, v)"
| "insert_count_loop tr N v it (Suc count) arg =
     (case insert_v tr N v it arg of
        (Returned it', v') \<Rightarrow> insert_count_loop tr N v' (Suc it') count arg
      | (Thrown e, v') \<Rightarrow> (Thrown e, v')
      | (Undefined_behaviour, v') \<Rightarrow> (Undefined_behaviour, v'))"

definition insert_count ::
  "traits \<Rightarrow> nat \<Rightarrow> 'a vector \<Rightarrow> nat \<Rightarrow> nat \<Rightarrow> 'a cref \<Rightarrow> ('a, nat) result" where
  \<comment> \<open>\<^verbatim>\<open>insert(pos, count, value)\<close>\<close>
  "insert_count tr N v pos count arg =
     insert_count_loop tr N v (begin_v v + (pos - cbegin_v v)) count arg"

fun insert_range_loop ::
  "traits \<Rightarrow> nat \<Rightarrow> 'a vector \<Rightarrow> nat \<Rightarrow> 'a list \<Rightarrow> ('a, nat) result" where
  \<comment> \<open>\<^verbatim>\<open>while (first != last) { it = insert(it, *first); ++first; ++it; } return it;\<close>
      the input range \<open>[first, last)\<close> lies outside the vector and is the list of the
      values it yields\<close>
  "insert_range_loop tr N v it [] = (Returned it, v)"
| "insert_range_loop tr N v it (x # rest) =
     (case insert_v tr N v it (External x) of
        (Returned it', v') \<Rightarrow> insert_range_loop tr N v' (Suc it') rest
      | (Thrown e, v') \<Rightarrow> (Thrown e, v')
      | (Undefined_behaviour, v') \<Rightarrow> (Undefined_behaviour, v'))"

definition insert_range ::
  "traits \<Rightarrow> nat \<Rightarrow> 'a vector \<Rightarrow> nat \<Rightarrow> 'a list \<Rightarrow> ('a, nat) result" where
  \<comment> \<open>\<^verbatim>\<open>insert(pos, first, last)\<close>\<close>
  "insert_range tr N v pos xs =
     insert_range_loop tr N v (begin_v v + (pos - cbegin_v v)) xs"

definition insert_initializer_list ::
  "traits \<Rightarrow> nat \<Rightarrow> 'a vector \<Rightarrow> nat \<Rightarrow> 'a list \<Rightarrow> ('a, nat) result" where
  \<comment> \<open>\<^verbatim>\<open>insert(pos, initializer_list)\<close>\<close>
  "insert_initializer_list tr N v pos il = insert_range tr N v pos il"

definition erase :: "traits \<Rightarrow> 'a vector \<Rightarrow> nat \<Rightarrow> nat \<times> 'a vector" where
  \<comment> \<open>\<^verbatim>\<open>erase(pos)\<close>\<close>
  "erase tr v pos =
     (let index = pos - cbegin_v v;
          v' = (if index < size_m v
                then pop_back tr
                       (v\<lparr>storage_m :=
                            move_range (storage_m v) (begin_v v + index + 1) (end_v v) (begin_v v + index)\<rparr>)
                else v)
      in (begin_v v' + index, v'))"

function destroy_loop :: "'a option list \<Rightarrow> nat \<Rightarrow> nat \<Rightarrow> 'a option list" where
  \<comment> \<open>\<^verbatim>\<open>for (auto it = ...; it != end(); ++it) it->~value_type();\<close>\<close>
  "destroy_loop st it e =
     (if it < e then destroy_loop (st[it := None]) (Suc it) e else st)"
  by pat_completeness auto
termination
  by (relation "measure (\<lambda>(st, it, e). e - it)") auto

declare destroy_loop.simps [simp del]

definition erase_range :: "traits \<Rightarrow> 'a vector \<Rightarrow> nat \<Rightarrow> nat \<Rightarrow> nat \<times> 'a vector" where
  \<comment> \<open>\<^verbatim>\<open>erase(first, last)\<close>\<close>
  "erase_range tr v first last_it =
     (let index = first - cbegin_v v;
          count = last_it - first;
          st1 = (if index < size_m v
                 then (let st = move_range (storage_m v) (begin_v v + index + count) (end_v v)
                                  (begin_v v + index)
                       in if \<not> default_constructible tr
                          then destroy_loop st (begin_v v + index) (end_v v)
                          else st)
                 else storage_m v);
          v' = v\<lparr>storage_m := st1, size_m := size_m v - count\<rparr>
      in (begin_v v' + index, v'))"

definition push_back :: "traits \<Rightarrow> nat \<Rightarrow> 'a vector \<Rightarrow> 'a cref \<Rightarrow> ('a, nat) result" where
  \<comment> \<open>both overloads: \<^verbatim>\<open>return *emplace(end(), value);\<close>\<close>
  "push_back tr N v arg = emplace tr N v (end_v v) arg"

definition emplace_back :: "traits \<Rightarrow> nat \<Rightarrow> 'a vector \<Rightarrow> 'a cref \<Rightarrow> ('a, nat) result" where
  "emplace_back tr N v arg = emplace tr N v (end_v v) arg"

subsection \<open>Constructors, assignment, destructor\<close>

text \<open>
  A special member function ends in one of four ways: it returns; it throws (the state
  at the throw is kept); it is \<^verbatim>\<open>noexcept\<close> and an exception reaches its boundary, which
  calls \<^verbatim>\<open>std::terminate\<close>; or it reads a slot that holds no object, which the language
  leaves undefined.
\<close>

datatype ('r, 's) outcome = Returns 'r | Throws cpp_exception 's | Terminate | Undefined

function emplace_back_each ::
  "traits \<Rightarrow> nat \<Rightarrow> 'a vector \<Rightarrow> 'a vector \<Rightarrow> nat \<Rightarrow> ('a vector, 'a vector) outcome" where
  \<comment> \<open>\<^verbatim>\<open>for (size_type i{}; i < other.size_; ++i) emplace_back(*other.ptr_at(i));\<close>
      and the same loop with \<^verbatim>\<open>std::move(*other.ptr_at(i))\<close>; \<open>this\<close> and \<open>other\<close> are
      different objects wherever the code runs it\<close>
  "emplace_back_each tr N this other i =
     (if i < size_m other
      then (case deref other (ptr_at i) of
              None \<Rightarrow> Undefined
            | Some x \<Rightarrow>
                (case emplace_back tr N this (External x) of
                   (Returned r, this') \<Rightarrow> emplace_back_each tr N this' other (Suc i)
                 | (Thrown e, this') \<Rightarrow> Throws e this'
                 | (Undefined_behaviour, this') \<Rightarrow> Undefined))
      else Returns this)"
  by pat_completeness auto
termination
  by (relation "measure (\<lambda>(tr, N, this, other, i). size_m other - i)") auto

declare emplace_back_each.simps [simp del]

fun emplace_back_all ::
  "traits \<Rightarrow> nat \<Rightarrow> 'a vector \<Rightarrow> 'a list \<Rightarrow> ('a vector, 'a vector) outcome" where
  \<comment> \<open>the fold expression \<^verbatim>\<open>((emplace_back(std::forward<Args>(args))), ...);\<close>\<close>
  "emplace_back_all tr N this [] = Returns this"
| "emplace_back_all tr N this (x # args) =
     (case emplace_back tr N this (External x) of
        (Returned r, this') \<Rightarrow> emplace_back_all tr N this' args
      | (Thrown e, this') \<Rightarrow> Throws e this'
      | (Undefined_behaviour, this') \<Rightarrow> Undefined)"

definition vector_args :: "traits \<Rightarrow> nat \<Rightarrow> 'a list \<Rightarrow> ('a vector, 'a vector) outcome" where
  \<comment> \<open>\<^verbatim>\<open>vector(Args &&... args)\<close>; the \<^verbatim>\<open>static_assert\<close> rejects \<open>length args > N\<close>
      at compile time\<close>
  "vector_args tr N args = emplace_back_all tr N (vector_default N) args"

definition vector_copy :: "traits \<Rightarrow> nat \<Rightarrow> 'a vector \<Rightarrow> ('a vector, 'a vector) outcome" where
  \<comment> \<open>\<^verbatim>\<open>vector(const vector &other)\<close>\<close>
  "vector_copy tr N other =
     (case emplace_back_each tr N (vector_default N) other 0 of
        Returns this \<Rightarrow> Returns (this\<lparr>size_m := size_m other\<rparr>)
      | Throws e this \<Rightarrow> Throws e this
      | Terminate \<Rightarrow> Terminate
      | Undefined \<Rightarrow> Undefined)"

definition vector_move :: "traits \<Rightarrow> nat \<Rightarrow> 'a vector \<Rightarrow> ('a vector \<times> 'a vector, unit) outcome" where
  \<comment> \<open>\<^verbatim>\<open>vector(vector &&other) noexcept\<close>: returns the new object and the source\<close>
  "vector_move tr N other =
     (case emplace_back_each tr N (vector_default N) other 0 of
        Returns this \<Rightarrow> Returns (this\<lparr>size_m := size_m other\<rparr>, clear tr other)
      | Throws e this \<Rightarrow> Terminate
      | Terminate \<Rightarrow> Terminate
      | Undefined \<Rightarrow> Undefined)"

definition destructor :: "traits \<Rightarrow> 'a vector \<Rightarrow> 'a vector" where
  "destructor tr v = clear tr v"

text \<open>
  The assignment operators compare the addresses of their operands, so they act on a
  store of vector objects: \<open>this\<close> and \<open>other\<close> are addresses.
\<close>

type_synonym 'a objects = "nat \<Rightarrow> 'a vector"

definition copy_assign ::
  "traits \<Rightarrow> nat \<Rightarrow> nat \<Rightarrow> nat \<Rightarrow> 'a objects \<Rightarrow> ('a objects, 'a objects) outcome" where
  \<comment> \<open>\<^verbatim>\<open>operator=(const vector &other)\<close>\<close>
  "copy_assign tr N this other h =
     (if this \<noteq> other
      then (case emplace_back_each tr N (clear tr (h this)) (h other) 0 of
              Returns v \<Rightarrow> Returns (h(this := v\<lparr>size_m := size_m (h other)\<rparr>))
            | Throws e v \<Rightarrow> Throws e (h(this := v))
            | Terminate \<Rightarrow> Terminate
            | Undefined \<Rightarrow> Undefined)
      else Returns h)"

definition move_assign ::
  "traits \<Rightarrow> nat \<Rightarrow> nat \<Rightarrow> nat \<Rightarrow> 'a objects \<Rightarrow> ('a objects, unit) outcome" where
  \<comment> \<open>\<^verbatim>\<open>operator=(vector &&other) noexcept\<close>\<close>
  "move_assign tr N this other h =
     (if this \<noteq> other
      then (case emplace_back_each tr N (clear tr (h this)) (h other) 0 of
              Returns v \<Rightarrow>
                Returns (h(this := v\<lparr>size_m := size_m (h other)\<rparr>, other := clear tr (h other)))
            | Throws e v \<Rightarrow> Terminate
            | Terminate \<Rightarrow> Terminate
            | Undefined \<Rightarrow> Undefined)
      else Returns h)"

subsection \<open>Comparison\<close>

text \<open>
  The class befriends a function template \<^verbatim>\<open>operator==\<close> of namespace \<^verbatim>\<open>cesa\<close>, which
  the header never defines. The \<^verbatim>\<open>operator==\<close> the header defines is a different
  template, at global scope; its body reads the private member \<^verbatim>\<open>size_\<close>, which it may
  not, so it has no instantiation. No comparison of two vectors compiles, and there is
  no function to embed; C8, which is about what \<^verbatim>\<open>operator==\<close> returns, has nothing to
  evaluate.
\<close>

subsection \<open>Programs over a store of vectors\<close>

text \<open>
  The states a program can reach: every object starts default-constructed, and each
  step constructs an object at an address or calls one public operation on one, within
  the documented precondition of the operation (a position in \<open>[begin(), end()]\<close> for
  the insertions, an argument that refers to an object, a live element for
  \<^verbatim>\<open>erase(pos)\<close> and for a write through a reference, a valid range for
  \<^verbatim>\<open>erase(first, last)\<close>). A caller may catch an exception and go on, so the state after
  a throw is reachable too, and so is the state a call with undefined behaviour is
  modelled to leave.
\<close>

inductive reachable :: "traits \<Rightarrow> nat \<Rightarrow> 'a objects \<Rightarrow> bool" for tr :: traits and N :: nat where
  r_init: "reachable tr N (\<lambda>a. vector_default N)"
| r_default: "reachable tr N h \<Longrightarrow> reachable tr N (h(a := vector_default N))"
| r_args: "reachable tr N h \<Longrightarrow> length args \<le> N \<Longrightarrow> vector_args tr N args = Returns v \<Longrightarrow>
     reachable tr N (h(a := v))"
| r_copy: "reachable tr N h \<Longrightarrow> a \<noteq> b \<Longrightarrow> vector_copy tr N (h b) = Returns v \<Longrightarrow>
     reachable tr N (h(a := v))"
| r_move: "reachable tr N h \<Longrightarrow> a \<noteq> b \<Longrightarrow> vector_move tr N (h b) = Returns (v, w) \<Longrightarrow>
     reachable tr N (h(a := v, b := w))"
| r_copy_assign: "reachable tr N h \<Longrightarrow> copy_assign tr N a b h = Returns h' \<Longrightarrow>
     reachable tr N h'"
| r_copy_assign_throws: "reachable tr N h \<Longrightarrow> copy_assign tr N a b h = Throws e h' \<Longrightarrow>
     reachable tr N h'"
| r_move_assign: "reachable tr N h \<Longrightarrow> move_assign tr N a b h = Returns h' \<Longrightarrow>
     reachable tr N h'"
| r_destructor: "reachable tr N h \<Longrightarrow> reachable tr N (h(a := destructor tr (h a)))"
| r_store: "reachable tr N h \<Longrightarrow> p < size_v (h a) \<Longrightarrow>
     reachable tr N (h(a := store (h a) p x))"
| r_clear: "reachable tr N h \<Longrightarrow> reachable tr N (h(a := clear tr (h a)))"
| r_insert: "reachable tr N h \<Longrightarrow> pos \<le> size_v (h a) \<Longrightarrow> arg_valid (h a) arg \<Longrightarrow>
     reachable tr N (h(a := snd (insert_v tr N (h a) pos arg)))"
| r_insert_count: "reachable tr N h \<Longrightarrow> pos \<le> size_v (h a) \<Longrightarrow> arg_valid (h a) arg \<Longrightarrow>
     reachable tr N (h(a := snd (insert_count tr N (h a) pos count arg)))"
| r_insert_range: "reachable tr N h \<Longrightarrow> pos \<le> size_v (h a) \<Longrightarrow>
     reachable tr N (h(a := snd (insert_range tr N (h a) pos xs)))"
| r_insert_initializer_list: "reachable tr N h \<Longrightarrow> pos \<le> size_v (h a) \<Longrightarrow>
     reachable tr N (h(a := snd (insert_initializer_list tr N (h a) pos xs)))"
| r_emplace: "reachable tr N h \<Longrightarrow> pos \<le> size_v (h a) \<Longrightarrow> arg_valid (h a) arg \<Longrightarrow>
     reachable tr N (h(a := snd (emplace tr N (h a) pos arg)))"
| r_erase: "reachable tr N h \<Longrightarrow> pos < size_v (h a) \<Longrightarrow>
     reachable tr N (h(a := snd (erase tr (h a) pos)))"
| r_erase_range: "reachable tr N h \<Longrightarrow> first \<le> last_it \<Longrightarrow> last_it \<le> size_v (h a) \<Longrightarrow>
     reachable tr N (h(a := snd (erase_range tr (h a) first last_it)))"
| r_push_back: "reachable tr N h \<Longrightarrow> arg_valid (h a) arg \<Longrightarrow>
     reachable tr N (h(a := snd (push_back tr N (h a) arg)))"
| r_emplace_back: "reachable tr N h \<Longrightarrow> arg_valid (h a) arg \<Longrightarrow>
     reachable tr N (h(a := snd (emplace_back tr N (h a) arg)))"
| r_pop_back: "reachable tr N h \<Longrightarrow> reachable tr N (h(a := pop_back tr (h a)))"

subsection \<open>Example states\<close>

definition nontrivial :: traits where
  \<comment> \<open>an element type such as \<^verbatim>\<open>std::string\<close> wrapped in a class without a default
      constructor: a destructor to run, and no object without a constructor call\<close>
  "nontrivial =
     \<lparr>trivially_destructible = False, default_constructible = False, implicit_lifetime = False\<rparr>"

definition trivial :: traits where
  \<comment> \<open>an element type such as \<^verbatim>\<open>int\<close>\<close>
  "trivial =
     \<lparr>trivially_destructible = True, default_constructible = True, implicit_lifetime = True\<rparr>"

definition ex_123 :: "nat vector" where
  \<comment> \<open>a \<^verbatim>\<open>vector<T, 4>\<close> holding 1, 2, 3\<close>
  "ex_123 = \<lparr>storage_m = [Some 1, Some 2, Some 3, None], size_m = 3, max_size_m = 4\<rparr>"

definition ex_123_of_5 :: "nat vector" where
  \<comment> \<open>a \<^verbatim>\<open>vector<T, 5>\<close> holding 1, 2, 3\<close>
  "ex_123_of_5 = \<lparr>storage_m = [Some 1, Some 2, Some 3, None, None], size_m = 3, max_size_m = 5\<rparr>"

definition ex_full :: "nat vector" where
  \<comment> \<open>a \<^verbatim>\<open>vector<T, 3>\<close> after \<^verbatim>\<open>push_back(1); push_back(2); push_back(3)\<close>\<close>
  "ex_full = \<lparr>storage_m = [Some 1, Some 2, Some 3], size_m = 3, max_size_m = 3\<rparr>"

definition ex_empty :: "nat vector" where
  \<comment> \<open>a default-constructed \<^verbatim>\<open>vector<T, 2>\<close>\<close>
  "ex_empty = \<lparr>storage_m = [None, None], size_m = 0, max_size_m = 2\<rparr>"

definition ex_5 :: "nat vector" where
  \<comment> \<open>a \<^verbatim>\<open>vector<T, 10>\<close> after \<^verbatim>\<open>push_back(5)\<close>\<close>
  "ex_5 = \<lparr>storage_m = Some 5 # replicate 9 None, size_m = 1, max_size_m = 10\<rparr>"

definition ex_12345 :: "nat vector" where
  \<comment> \<open>a \<^verbatim>\<open>vector<T, 5>\<close> holding 1, 2, 3, 4, 5\<close>
  "ex_12345 = \<lparr>storage_m = [Some 1, Some 2, Some 3, Some 4, Some 5], size_m = 5, max_size_m = 5\<rparr>"

definition ex_objects :: "nat objects" where
  \<comment> \<open>a store in which every address holds the full \<^verbatim>\<open>vector<T, 3>\<close> 1, 2, 3\<close>
  "ex_objects a = ex_full"

definition ex_program :: "nat objects" where
  \<comment> \<open>every object a default-constructed \<^verbatim>\<open>vector<T, 2>\<close>, then \<^verbatim>\<open>push_back(7)\<close> three times
      on the object at address 0 (the third call throws)\<close>
  "ex_program =
     (let h0 = (\<lambda>a. vector_default 2);
          h1 = h0(0 := snd (push_back trivial 2 (h0 0) (External 7)));
          h2 = h1(0 := snd (push_back trivial 2 (h1 0) (External 7)))
      in h2(0 := snd (push_back trivial 2 (h2 0) (External 7))))"

section \<open>Properties\<close>

subsection \<open>The standard algorithms\<close>

lemmas pos_defs = ptr_at_def data_v_def begin_v_def cbegin_v_def end_v_def cend_v_def

lemma read_slot_nth: "i < length st \<Longrightarrow> read_slot st i = st ! i"
  by (simp add: read_slot_def)

lemma read_slot_update: "k \<noteq> i \<Longrightarrow> read_slot (st[k := y]) i = read_slot st i"
  by (simp add: read_slot_def)

lemma assignment_defined_update:
  "k \<noteq> d \<Longrightarrow> k \<noteq> s \<Longrightarrow> assignment_defined tr (st[k := y]) d s = assignment_defined tr st d s"
  by (simp add: assignment_defined_def read_slot_update)

lemma move_backward_step:
  "first < last_it \<Longrightarrow>
   move_backward tr st first last_it d_last =
     (assignment_defined tr st (d_last - 1) (last_it - 1) \<and>
        fst (move_backward tr (st[d_last - 1 := read_slot st (last_it - 1)])
               first (last_it - 1) (d_last - 1)),
      snd (move_backward tr (st[d_last - 1 := read_slot st (last_it - 1)])
             first (last_it - 1) (d_last - 1)))"
  by (subst move_backward.simps) (simp add: case_prod_unfold)

lemma move_backward_stop:
  "\<not> first < last_it \<Longrightarrow> move_backward tr st first last_it d_last = (True, st)"
  by (subst move_backward.simps) simp

lemma length_move_backward: "length (snd (move_backward tr st f l d)) = length st"
proof (induction tr st f l d rule: move_backward.induct)
  case (1 tr st first last_it d_last)
  then show ?case
    by (cases "first < last_it") (simp_all add: move_backward_step move_backward_stop)
qed

lemma move_backward_nth:
  "l < length st \<Longrightarrow> i < length st \<Longrightarrow>
   snd (move_backward tr st f l (Suc l)) ! i = (if f < i \<and> i \<le> l then st ! (i - 1) else st ! i)"
proof (induction l arbitrary: st)
  case 0
  then show ?case by (simp add: move_backward_stop)
next
  case (Suc l)
  show ?case
  proof (cases "f < Suc l")
    case False
    then show ?thesis using Suc.prems by (auto simp: move_backward_stop)
  next
    case True
    let ?st = "st[Suc l := read_slot st l]"
    have step: "snd (move_backward tr st f (Suc l) (Suc (Suc l))) =
                snd (move_backward tr ?st f l (Suc l))"
      using True by (simp add: move_backward_step)
    have len: "l < length ?st" "i < length ?st"
      using Suc.prems by simp_all
    show ?thesis
      unfolding step using Suc.IH[OF len] Suc.prems True
      by (auto simp: read_slot_nth nth_list_update)
  qed
qed

lemma move_backward_defined:
  "(\<forall>j. f \<le> j \<and> j < l \<longrightarrow> assignment_defined tr st (Suc j) j) \<Longrightarrow>
   fst (move_backward tr st f l (Suc l))"
proof (induction l arbitrary: st)
  case 0
  then show ?case by (simp add: move_backward_stop)
next
  case (Suc l)
  show ?case
  proof (cases "f < Suc l")
    case False
    then show ?thesis by (simp add: move_backward_stop)
  next
    case True
    let ?st = "st[Suc l := read_slot st l]"
    have first_ok: "assignment_defined tr st (Suc l) l"
      using Suc.prems True by simp
    have "\<forall>j. f \<le> j \<and> j < l \<longrightarrow> assignment_defined tr ?st (Suc j) j"
      using Suc.prems by (simp add: assignment_defined_update)
    then have "fst (move_backward tr ?st f l (Suc l))"
      by (rule Suc.IH)
    then show ?thesis
      using True first_ok by (simp add: move_backward_step)
  qed
qed

lemma move_backward_undefined:
  "f < l \<Longrightarrow> \<not> assignment_defined tr st l (l - 1) \<Longrightarrow> \<not> fst (move_backward tr st f l (Suc l))"
  by (simp add: move_backward_step)

lemma length_move_range: "length (move_range st f l d) = length st"
  by (induction st f l d rule: move_range.induct) (subst move_range.simps, simp)

lemma move_range_nth:
  "l \<le> length st \<Longrightarrow> i < length st \<Longrightarrow>
   move_range st (d + c) l d ! i = (if d \<le> i \<and> i + c < l then st ! (i + c) else st ! i)"
proof (induction "l - (d + c)" arbitrary: st d)
  case 0
  then show ?case by (subst move_range.simps) auto
next
  case (Suc n)
  let ?st = "st[d := read_slot st (d + c)]"
  have lt: "d + c < l" using Suc.hyps(2) by simp
  have step: "move_range st (d + c) l d = move_range ?st (Suc d + c) l (Suc d)"
    using lt by (subst move_range.simps) simp
  have n: "n = l - (Suc d + c)" using Suc.hyps(2) by simp
  have len: "l \<le> length ?st" "i < length ?st" using Suc.prems by simp_all
  show ?case
    unfolding step using Suc.hyps(1)[OF n len] Suc.prems lt
    by (auto simp: read_slot_nth nth_list_update)
qed

lemma length_destroy_loop: "length (destroy_loop st i e) = length st"
  by (induction st i e rule: destroy_loop.induct) (subst destroy_loop.simps, simp)

lemma destroy_loop_nth:
  "i < length st \<Longrightarrow> destroy_loop st b e ! i = (if b \<le> i \<and> i < e then None else st ! i)"
proof (induction st b e rule: destroy_loop.induct)
  case (1 st it e)
  show ?case
  proof (cases "it < e")
    case True
    then show ?thesis using 1 by (subst destroy_loop.simps) (auto simp: nth_list_update)
  next
    case False
    then show ?thesis by (subst destroy_loop.simps) auto
  qed
qed

subsection \<open>emplace\<close>

lemma all_live_nth: "all_live v \<Longrightarrow> size_m v \<le> length (storage_m v) \<Longrightarrow> i < size_m v \<Longrightarrow>
  \<exists>x. storage_m v ! i = Some x"
  by (auto simp: all_live_def contents_def list_all_length)

lemma all_live_iff:
  "size_m v \<le> length (storage_m v) \<Longrightarrow> all_live v \<longleftrightarrow> (\<forall>i < size_m v. storage_m v ! i \<noteq> None)"
  by (auto simp: all_live_def contents_def list_all_length)

lemma emplace_full:
  "N \<le> size_m v \<Longrightarrow> emplace tr N v pos arg = (Thrown CapacityExceeded, v)"
  by (simp add: emplace_def CapacityExceeded_def)

lemma emplace_reply:
  "size_m v < N \<Longrightarrow> pos \<le> size_m v \<Longrightarrow>
   fst (emplace tr N v pos arg) = Returned pos \<or> fst (emplace tr N v pos arg) = Undefined_behaviour"
  by (simp add: emplace_def Let_def pos_defs case_prod_unfold)

lemma emplace_size: "size_m v < N \<Longrightarrow> size_m (snd (emplace tr N v pos arg)) = Suc (size_m v)"
  by (simp add: emplace_def Let_def case_prod_unfold)

lemma emplace_max_size: "max_size_m (snd (emplace tr N v pos arg)) = max_size_m v"
  by (simp add: emplace_def Let_def case_prod_unfold)

lemma emplace_length: "length (storage_m (snd (emplace tr N v pos arg))) = length (storage_m v)"
  by (simp add: emplace_def Let_def case_prod_unfold length_move_backward)

lemma emplace_inv: "vector_inv N v \<Longrightarrow> vector_inv N (snd (emplace tr N v pos arg))"
  by (cases "size_m v < N")
    (simp_all add: vector_inv_def emplace_size emplace_max_size emplace_length emplace_full)

text \<open>The storage after the shift, before the new element is constructed.\<close>

lemma shifted_nth:
  assumes "vector_inv N v" "size_m v < N" "pos \<le> size_m v" "i < N"
  shows "(if pos < size_m v
          then snd (move_backward tr (storage_m v) pos (size_m v) (Suc (size_m v)))
          else storage_m v) ! i =
         (if pos < i \<and> i \<le> size_m v then storage_m v ! (i - 1) else storage_m v ! i)"
proof -
  have len: "size_m v < length (storage_m v)" "i < length (storage_m v)"
    using assms by (simp_all add: vector_inv_def)
  show ?thesis
    using assms move_backward_nth[OF len, of tr pos] by auto
qed

lemma emplace_nth:
  assumes "vector_inv N v" "size_m v < N" "pos \<le> size_m v" "i < N"
  shows "storage_m (snd (emplace tr N v pos arg)) ! i =
           (if i = pos
            then (case arg of
                    External x \<Rightarrow> Some x
                  | Element p \<Rightarrow>
                      read_slot (storage_m v) (if pos < p \<and> p \<le> size_m v then p - 1 else p))
            else if pos < i \<and> i \<le> size_m v then storage_m v ! (i - 1)
            else storage_m v ! i)"
proof -
  let ?st1 = "if pos < size_m v
          then snd (move_backward tr (storage_m v) pos (size_m v) (Suc (size_m v)))
          else storage_m v"
  have len1: "length ?st1 = N"
    using assms(1) by (simp add: length_move_backward vector_inv_def)
  have st: "storage_m (snd (emplace tr N v pos arg)) = ?st1[pos := arg_value ?st1 arg]"
    using assms(2,3) by (simp add: emplace_def Let_def pos_defs case_prod_unfold)
  have arg: "arg_value ?st1 arg =
      (case arg of External x \<Rightarrow> Some x
       | Element p \<Rightarrow> read_slot (storage_m v) (if pos < p \<and> p \<le> size_m v then p - 1 else p))"
  proof (cases arg)
    case (External x)
    then show ?thesis by (simp add: arg_value_def)
  next
    case (Element p)
    show ?thesis
    proof (cases "p < N")
      case True
      have "?st1 ! p = (if pos < p \<and> p \<le> size_m v then storage_m v ! (p - 1) else storage_m v ! p)"
        by (rule shifted_nth[OF assms(1,2,3) True])
      then show ?thesis
        using Element True len1 assms(1,2)
        by (auto simp: arg_value_def read_slot_def vector_inv_def)
    next
      case False
      then show ?thesis
        using Element len1 assms(1,2)
        by (auto simp: arg_value_def read_slot_def vector_inv_def)
    qed
  qed
  show ?thesis
    unfolding st arg using shifted_nth[OF assms, of tr] len1 assms(4)
    by (simp add: nth_list_update)
qed

lemma emplace_contents:
  assumes "vector_inv N v" "size_m v < N" "pos \<le> size_m v"
  shows "contents (snd (emplace tr N v pos (External x))) =
           take pos (contents v) @ Some x # drop pos (contents v)"
proof (rule nth_equalityI)
  let ?v' = "snd (emplace tr N v pos (External x))"
  have lenc: "length (contents v) = size_m v"
    using assms by (simp add: contents_def vector_inv_def)
  show "length (contents ?v') = length (take pos (contents v) @ Some x # drop pos (contents v))"
    using assms by (simp add: contents_def emplace_size emplace_length vector_inv_def)
  fix i assume "i < length (contents ?v')"
  then have i: "i \<le> size_m v"
    using assms by (simp add: contents_def emplace_size emplace_length vector_inv_def)
  then have iN: "i < N" using assms by simp
  have "contents ?v' ! i = storage_m ?v' ! i"
    using i assms by (simp add: contents_def emplace_size)
  also have "\<dots> = (take pos (contents v) @ Some x # drop pos (contents v)) ! i"
    using assms i lenc
    by (auto simp: emplace_nth[OF assms iN] nth_append contents_def nth_Cons' min_def)
  finally show "contents ?v' ! i = (take pos (contents v) @ Some x # drop pos (contents v)) ! i" .
qed

lemma emplace_all_live:
  assumes "vector_inv N v" and "all_live v" and "pos \<le> size_m v" and "arg_valid v arg"
  shows "all_live (snd (emplace tr N v pos arg))"
proof (cases "size_m v < N")
  case False
  then show ?thesis using assms(2) by (simp add: emplace_full)
next
  case True
  let ?v' = "snd (emplace tr N v pos arg)"
  have len: "size_m v \<le> length (storage_m v)" "length (storage_m v) = N"
    using assms(1) by (simp_all add: vector_inv_def)
  have live: "\<And>i. i < size_m v \<Longrightarrow> storage_m v ! i \<noteq> None"
    using assms(2) len(1) by (simp add: all_live_iff)
  have "\<forall>i < size_m ?v'. storage_m ?v' ! i \<noteq> None"
  proof (intro allI impI)
    fix i assume "i < size_m ?v'"
    then have i: "i \<le> size_m v" by (simp add: emplace_size[OF True])
    then have iN: "i < N" using True by simp
    show "storage_m ?v' ! i \<noteq> None"
    proof (cases arg)
      case (External x)
      then show ?thesis
        using i live assms(3) by (auto simp: emplace_nth[OF assms(1) True assms(3) iN])
    next
      case (Element p)
      then have p: "p < size_m v"
        using assms(4) by (simp add: arg_valid_def)
      then have "read_slot (storage_m v) (if pos < p \<and> p \<le> size_m v then p - 1 else p) \<noteq> None"
        using live len by (auto simp: read_slot_def)
      then show ?thesis
        using Element i live assms(3) by (auto simp: emplace_nth[OF assms(1) True assms(3) iN])
    qed
  qed
  moreover have "size_m ?v' \<le> length (storage_m ?v')"
    using True len by (simp add: emplace_size emplace_length)
  ultimately show ?thesis
    by (simp add: all_live_iff)
qed

lemma emplace_returns_at_end:
  "size_m v < N \<Longrightarrow> fst (emplace tr N v (size_m v) (External x)) = Returned (size_m v)"
  by (simp add: emplace_def Let_def pos_defs arg_value_def)

lemma emplace_returns_implicit_lifetime:
  assumes "vector_inv N v" and "all_live v" and "implicit_lifetime tr"
    and "size_m v < N" and "pos \<le> size_m v"
  shows "fst (emplace tr N v pos (External x)) = Returned pos"
proof -
  have len: "size_m v \<le> length (storage_m v)"
    using assms(1) by (simp add: vector_inv_def)
  have "\<forall>j. pos \<le> j \<and> j < size_m v \<longrightarrow> assignment_defined tr (storage_m v) (Suc j) j"
    using assms(2,3) len by (auto simp: assignment_defined_def read_slot_def all_live_iff)
  then have "fst (move_backward tr (storage_m v) pos (size_m v) (Suc (size_m v)))"
    by (rule move_backward_defined)
  then show ?thesis
    using assms(4,5) by (simp add: emplace_def Let_def pos_defs case_prod_unfold arg_value_def)
qed

lemma emplace_undefined_shift:
  assumes "\<not> implicit_lifetime tr" and "pos < size_m v" and "size_m v < N"
    and "read_slot (storage_m v) (size_m v) = None"
  shows "fst (emplace tr N v pos arg) = Undefined_behaviour"
proof -
  have "\<not> assignment_defined tr (storage_m v) (size_m v) (size_m v - 1)"
    using assms(1,4) by (simp add: assignment_defined_def)
  then have "\<not> fst (move_backward tr (storage_m v) pos (size_m v) (Suc (size_m v)))"
    using assms(2) by (rule move_backward_undefined[rotated])
  then show ?thesis
    using assms(2,3) by (simp add: emplace_def Let_def pos_defs case_prod_unfold)
qed

lemma emplace_implicit_lifetime:
  assumes "vector_inv N v" and "all_live v" and "implicit_lifetime tr"
    and "size_v v < N" and "begin_v v \<le> pos" and "pos \<le> end_v v"
  shows "\<exists>p v'. emplace tr N v pos (External x) = (Returned p, v') \<and> p = pos \<and>
           deref v' p = Some x \<and> size_v v' = size_v v + 1 \<and>
           (\<forall>i < pos. deref v' i = deref v i) \<and>
           (\<forall>i. pos \<le> i \<and> i < size_v v \<longrightarrow> deref v' (i + 1) = deref v i) \<and>
           contents v' = take pos (contents v) @ Some x # drop pos (contents v)"
proof -
  let ?v' = "snd (emplace tr N v pos (External x))"
  have sz: "size_m v < N" and pos: "pos \<le> size_m v"
    using assms by (simp_all add: size_v_def pos_defs)
  have len: "length (storage_m ?v') = N" "length (storage_m v) = N"
    using assms(1) by (simp_all add: emplace_length vector_inv_def)
  have nth: "\<And>i. i < N \<Longrightarrow> deref ?v' i =
      (if i = pos then Some x
       else if pos < i \<and> i \<le> size_m v then storage_m v ! (i - 1) else storage_m v ! i)"
    using emplace_nth[OF assms(1) sz pos, of _ tr "External x"] len
    by (simp add: deref_def read_slot_def)
  have "emplace tr N v pos (External x) = (Returned pos, ?v')"
    using emplace_returns_implicit_lifetime[OF assms(1,2,3) sz pos, of x]
    by (simp add: prod_eq_iff)
  moreover have "deref ?v' pos = Some x"
    using nth[of pos] sz pos by simp
  moreover have "size_v ?v' = size_v v + 1"
    using emplace_size[OF sz] by (simp add: size_v_def)
  moreover have "\<forall>i < pos. deref ?v' i = deref v i"
    using nth sz pos len by (simp add: deref_def read_slot_def)
  moreover have "\<forall>i. pos \<le> i \<and> i < size_v v \<longrightarrow> deref ?v' (i + 1) = deref v i"
    using nth sz pos len by (simp add: deref_def read_slot_def size_v_def)
  moreover have "contents ?v' = take pos (contents v) @ Some x # drop pos (contents v)"
    by (rule emplace_contents[OF assms(1) sz pos])
  ultimately show ?thesis by blast
qed

text \<open>
  C1 fails on the code for an element type that is not an implicit-lifetime type, at
  every position before the end. The first step of
  \<^verbatim>\<open>std::move_backward(begin() + index, end(), end() + 1)\<close> is
  \<^verbatim>\<open>*end() = std::move(*(end() - 1))\<close>: a move assignment to the slot at \<open>end()\<close>, where no
  element has been constructed. On the vector 1, 2, 3 of capacity 4,
  \<^verbatim>\<open>emplace(begin() + 1, 9)\<close> therefore has undefined behaviour instead of returning a
  position. For an implicit-lifetime element type the call does what C1 says
  (\<open>emplace_implicit_lifetime\<close>).
\<close>

theorem emplace_assigns_to_unconstructed_slot:
  "deref ex_123 (end_v ex_123) = None \<and> \<not> implicit_lifetime nontrivial \<and>
   fst (emplace nontrivial 4 ex_123 1 (External 9)) = Undefined_behaviour"
proof -
  have "fst (emplace nontrivial 4 ex_123 1 (External 9)) = Undefined_behaviour"
    by (rule emplace_undefined_shift) (simp_all add: nontrivial_def ex_123_def read_slot_def)
  then show ?thesis
    by (simp add: deref_def read_slot_def ex_123_def pos_defs nontrivial_def)
qed

subsection \<open>push_back and the capacity check\<close>

lemma push_back_contents:
  assumes "vector_inv N v" "size_m v < N"
  shows "contents (snd (push_back tr N v (External x))) = contents v @ [Some x]"
proof -
  have "length (contents v) = size_m v"
    using assms by (simp add: contents_def vector_inv_def)
  then show ?thesis
    using emplace_contents[OF assms, of "size_m v" tr x] by (simp add: push_back_def pos_defs)
qed

lemma push_back_size:
  "vector_inv N v \<Longrightarrow>
   size_m (snd (push_back tr N v arg)) = (if size_m v < N then Suc (size_m v) else size_m v)"
  by (simp add: push_back_def emplace_size emplace_full)

lemma push_back_repeated_size:
  "vector_inv N v \<Longrightarrow>
   size_m (foldl (\<lambda>w y. snd (push_back tr N w (External y))) v xs) = min N (size_m v + length xs)"
proof (induction xs arbitrary: v)
  case Nil
  then show ?case by (simp add: vector_inv_def)
next
  case (Cons x xs)
  have inv1: "vector_inv N (snd (push_back tr N v (External x)))"
    unfolding push_back_def by (rule emplace_inv[OF Cons.prems])
  have le: "size_m v \<le> N"
    using Cons.prems by (simp add: vector_inv_def)
  show ?case
    using Cons.IH[OF inv1] le by (auto simp: push_back_size[OF Cons.prems])
qed

text \<open>
  C2. While \<open>size() < max_size()\<close> a \<^verbatim>\<open>push_back\<close> returns normally and adds exactly one
  to \<open>size()\<close> (the new element comes last). When \<open>size() = max_size()\<close>, \<^verbatim>\<open>push_back\<close> and
  \<^verbatim>\<open>emplace\<close> at any position throw CapacityExceeded and the vector is the one they were
  called on: count and slots are unchanged. So after one \<^verbatim>\<open>push_back\<close> per value of a
  list, exceptions caught, \<open>size()\<close> has grown by the length of the list or stopped at
  \<open>max_size()\<close>.
\<close>

theorem push_back_until_full:
  assumes "vector_inv N v"
  shows "(size_v v < max_size_v v \<longrightarrow>
            (\<exists>r v'. push_back tr N v (External x) = (Returned r, v') \<and>
                     size_v v' = size_v v + 1 \<and> contents v' = contents v @ [Some x])) \<and>
         (size_v v = max_size_v v \<longrightarrow>
            push_back tr N v arg = (Thrown CapacityExceeded, v) \<and>
            emplace tr N v pos arg' = (Thrown CapacityExceeded, v)) \<and>
         size_v (foldl (\<lambda>w y. snd (push_back tr N w (External y))) v xs) =
           min (max_size_v v) (size_v v + length xs)"
proof (intro conjI impI)
  assume "size_v v < max_size_v v"
  then have sz: "size_m v < N"
    using assms by (simp add: size_v_def max_size_v_def vector_inv_def)
  have "fst (push_back tr N v (External x)) = Returned (size_m v)"
    using emplace_returns_at_end[OF sz, of tr x] by (simp add: push_back_def pos_defs)
  moreover have "size_v (snd (push_back tr N v (External x))) = size_v v + 1"
    using emplace_size[OF sz, of tr "end_v v" "External x"] by (simp add: push_back_def size_v_def)
  ultimately show "\<exists>r v'. push_back tr N v (External x) = (Returned r, v') \<and>
                     size_v v' = size_v v + 1 \<and> contents v' = contents v @ [Some x]"
    using push_back_contents[OF assms sz, of tr x] by (metis prod.collapse)
next
  assume "size_v v = max_size_v v"
  then have full: "N \<le> size_m v"
    using assms by (simp add: size_v_def max_size_v_def vector_inv_def)
  show "push_back tr N v arg = (Thrown CapacityExceeded, v)"
    using full by (simp add: push_back_def emplace_full)
  show "emplace tr N v pos arg' = (Thrown CapacityExceeded, v)"
    using full by (rule emplace_full)
next
  have "max_size_v v = N"
    using assms by (simp add: max_size_v_def vector_inv_def)
  then show "size_v (foldl (\<lambda>w y. snd (push_back tr N w (External y))) v xs) =
           min (max_size_v v) (size_v v + length xs)"
    using push_back_repeated_size[OF assms, of tr xs] by (simp add: size_v_def)
qed

theorem push_back_until_full_witness:
  "vector_inv 4 ex_123 \<and> size_v ex_123 < max_size_v ex_123 \<and>
   (\<exists>r v'. push_back nontrivial 4 ex_123 (External 4) = (Returned r, v') \<and>
            size_v v' = size_v ex_123 + 1 \<and> contents v' = contents ex_123 @ [Some 4]) \<and>
   size_v (foldl (\<lambda>w y. snd (push_back nontrivial 4 w (External y))) ex_123 [4, 5, 6]) = 4 \<and>
   vector_inv 3 ex_full \<and> size_v ex_full = max_size_v ex_full \<and>
   push_back nontrivial 3 ex_full (External 4) = (Thrown CapacityExceeded, ex_full) \<and>
   emplace nontrivial 3 ex_full 1 (Element 0) = (Thrown CapacityExceeded, ex_full)"
proof -
  have a: "vector_inv 4 ex_123" and a': "size_v ex_123 < max_size_v ex_123"
    and a'': "size_v ex_123 = 3" "max_size_v ex_123 = 4"
    by (simp_all add: vector_inv_def ex_123_def size_v_def max_size_v_def)
  have b: "vector_inv 3 ex_full" and b': "size_v ex_full = max_size_v ex_full"
    by (simp_all add: vector_inv_def ex_full_def size_v_def max_size_v_def)
  note p = push_back_until_full[OF a, of nontrivial 4 "External 4" 1 "Element 0" "[4, 5, 6]"]
  note q = push_back_until_full[OF b, of nontrivial 4 "External 4" 1 "Element 0" "[]"]
  have "size_v (foldl (\<lambda>w y. snd (push_back nontrivial 4 w (External y))) ex_123 [4, 5, 6]) = 4"
    using p[THEN conjunct2, THEN conjunct2] a'' by simp
  then show ?thesis
    using a a' b b' p[THEN conjunct1] q[THEN conjunct2, THEN conjunct1] by blast
qed

subsection \<open>Checked access\<close>

text \<open>
  C6. \<^verbatim>\<open>at(i)\<close> throws IndexOutOfRange exactly when \<open>i \<ge> size()\<close>; when \<open>i < size()\<close> it
  returns a reference to slot \<open>i\<close>, the same slot \<^verbatim>\<open>operator[]\<close> denotes, which holds the
  \<open>i\<close>-th element; in both cases the vector is left as it was.
\<close>

theorem at_checks_index:
  assumes "vector_inv N v"
  shows "(fst (at_v v i) = Thrown IndexOutOfRange \<longleftrightarrow> i \<ge> size_v v) \<and>
         ((\<exists>e. fst (at_v v i) = Thrown e) \<longleftrightarrow> i \<ge> size_v v) \<and>
         (i < size_v v \<longrightarrow>
            fst (at_v v i) = Returned (operator_index v i) \<and>
            deref v (operator_index v i) = contents v ! i) \<and>
         snd (at_v v i) = v"
  using assms
  by (auto simp: at_v_def size_v_def IndexOutOfRange_def operator_index_def deref_def ptr_at_def
      read_slot_def contents_def vector_inv_def)

theorem at_checks_index_witness:
  "vector_inv 4 ex_123 \<and> (1::nat) < size_v ex_123 \<and> (3::nat) \<ge> size_v ex_123 \<and>
   at_v ex_123 1 = (Returned 1, ex_123) \<and> deref ex_123 1 = Some 2 \<and>
   at_v ex_123 3 = (Thrown IndexOutOfRange, ex_123)"
proof -
  have a: "vector_inv 4 ex_123"
    by (simp add: vector_inv_def ex_123_def)
  have s: "size_v ex_123 = 3" "contents ex_123 ! 1 = Some 2" "operator_index ex_123 1 = 1"
    by (simp_all add: size_v_def ex_123_def contents_def operator_index_def ptr_at_def)
  show ?thesis
    using a s at_checks_index[OF a, of 1] at_checks_index[OF a, of 3]
    by (simp add: prod_eq_iff)
qed

subsection \<open>pop_back\<close>

text \<open>
  C9. On a non-empty vector \<^verbatim>\<open>pop_back()\<close> takes exactly one off the live count, the
  remaining elements are the old ones without the last, and the destructor of the last
  element has run where the element type has one to run (the slot then holds no object).
  On an empty vector it changes nothing. \<^verbatim>\<open>pop_back\<close> has no \<^verbatim>\<open>throw\<close>: its result is a
  vector, not an exception.
\<close>

theorem pop_back_drops_last:
  assumes "vector_inv N v"
  shows "(\<not> empty_v v \<longrightarrow>
            size_v (pop_back tr v) + 1 = size_v v \<and>
            contents (pop_back tr v) = butlast (contents v) \<and>
            (\<not> trivially_destructible tr \<longrightarrow> deref (pop_back tr v) (size_v v - 1) = None) \<and>
            max_size_v (pop_back tr v) = max_size_v v) \<and>
         (empty_v v \<longrightarrow> pop_back tr v = v)"
proof -
  have len: "size_m v \<le> length (storage_m v)"
    using assms by (simp add: vector_inv_def)
  have take_upd: "take (size_m v - 1) ((storage_m v)[size_m v - 1 := None]) =
                  take (size_m v - 1) (storage_m v)"
    by simp
  have bl: "butlast (take (size_m v) (storage_m v)) = take (size_m v - 1) (storage_m v)"
    using len by (simp add: butlast_take)
  show ?thesis
    using len take_upd bl
    by (auto simp: pop_back_def Let_def empty_v_def size_v_def max_size_v_def contents_def
        deref_def read_slot_def ptr_at_def)
qed

theorem pop_back_drops_last_witness:
  "vector_inv 4 ex_123 \<and> \<not> empty_v ex_123 \<and> \<not> trivially_destructible nontrivial \<and>
   size_v (pop_back nontrivial ex_123) + 1 = size_v ex_123 \<and>
   contents (pop_back nontrivial ex_123) = [Some 1, Some 2] \<and>
   deref (pop_back nontrivial ex_123) 2 = None \<and>
   vector_inv 2 ex_empty \<and> empty_v ex_empty \<and> pop_back nontrivial ex_empty = ex_empty"
proof -
  have a: "vector_inv 4 ex_123" and b: "vector_inv 2 ex_empty"
    by (simp_all add: vector_inv_def ex_123_def ex_empty_def)
  have s: "\<not> empty_v ex_123" "empty_v ex_empty" "\<not> trivially_destructible nontrivial"
    "size_v ex_123 = 3" "butlast (contents ex_123) = [Some 1, Some 2]"
    by (simp_all add: empty_v_def ex_123_def ex_empty_def nontrivial_def size_v_def contents_def)
  show ?thesis
    using a b s pop_back_drops_last[OF a, of nontrivial] pop_back_drops_last[OF b, of nontrivial]
    by simp
qed

subsection \<open>The exceptions thrown\<close>

text \<open>
  C10. Whenever \<^verbatim>\<open>at\<close> throws and \<^verbatim>\<open>emplace\<close> throws, the two exception objects have the
  same type, \<^verbatim>\<open>std::out_of_range\<close>, and differ only in their messages,
  \<^verbatim>\<open>"index out of range"\<close> and \<^verbatim>\<open>"vector capacity exceeded"\<close>.
\<close>

theorem both_errors_are_out_of_range:
  assumes "fst (at_v v i) = Thrown e1" and "fst (emplace tr N w pos arg) = Thrown e2"
  shows "exn_type e1 = exn_type e2 \<and> exn_type e1 = ''std::out_of_range'' \<and>
         e1 = IndexOutOfRange \<and> e2 = CapacityExceeded \<and>
         what e1 = ''index out of range'' \<and> what e2 = ''vector capacity exceeded'' \<and>
         what e1 \<noteq> what e2"
proof -
  have "e1 = out_of_range ''index out of range''"
    using assms(1) by (auto simp: at_v_def split: if_splits)
  moreover have "e2 = out_of_range ''vector capacity exceeded''"
    using assms(2) by (auto simp: emplace_def Let_def case_prod_unfold split: if_splits)
  ultimately show ?thesis
    by (simp add: out_of_range_def IndexOutOfRange_def CapacityExceeded_def)
qed

theorem both_errors_are_out_of_range_witness:
  "fst (at_v ex_full 3) = Thrown IndexOutOfRange \<and>
   fst (emplace nontrivial 3 ex_full 0 (External 7)) = Thrown CapacityExceeded \<and>
   exn_type IndexOutOfRange = exn_type CapacityExceeded \<and>
   what IndexOutOfRange \<noteq> what CapacityExceeded"
proof -
  have a: "fst (at_v ex_full 3) = Thrown IndexOutOfRange"
    by (simp add: at_v_def ex_full_def IndexOutOfRange_def)
  have b: "fst (emplace nontrivial 3 ex_full 0 (External 7)) = Thrown CapacityExceeded"
    by (simp add: emplace_def ex_full_def CapacityExceeded_def)
  show ?thesis
    using a b both_errors_are_out_of_range[OF a b] by simp
qed

subsection \<open>Multi-element insertion\<close>

lemma insert_count_loop_inv:
  "vector_inv N v \<Longrightarrow> vector_inv N (snd (insert_count_loop tr N v it count arg))"
proof (induction count arbitrary: v it)
  case 0
  then show ?case by simp
next
  case (Suc count)
  obtain r v1 where e: "emplace tr N v it arg = (r, v1)"
    by (cases "emplace tr N v it arg")
  have inv1: "vector_inv N v1"
    using emplace_inv[OF Suc.prems, of tr it arg] e by simp
  show ?case
    using Suc.IH[OF inv1] inv1 by (cases r) (simp_all add: insert_v_def e)
qed

lemma insert_range_loop_inv:
  "vector_inv N v \<Longrightarrow> vector_inv N (snd (insert_range_loop tr N v it xs))"
proof (induction xs arbitrary: v it)
  case Nil
  then show ?case by simp
next
  case (Cons x xs)
  obtain r v1 where e: "emplace tr N v it (External x) = (r, v1)"
    by (cases "emplace tr N v it (External x)")
  have inv1: "vector_inv N v1"
    using emplace_inv[OF Cons.prems, of tr it "External x"] e by simp
  show ?case
    using Cons.IH[OF inv1] inv1 by (cases r) (simp_all add: insert_v_def e)
qed

lemma emplace_step:
  assumes "vector_inv N v" and "all_live v" and "it \<le> size_m v" and "arg_valid v arg"
    and "emplace tr N v it arg = (r, v1)"
  shows "vector_inv N v1 \<and> all_live v1 \<and>
         (\<forall>it'. r = Returned it' \<longrightarrow> Suc it' \<le> size_m v1 \<and> arg_valid v1 arg)"
proof -
  have inv1: "vector_inv N v1"
    using emplace_inv[OF assms(1), of tr it arg] assms(5) by simp
  have live1: "all_live v1"
    using emplace_all_live[OF assms(1,2,3,4), of tr] assms(5) by simp
  have "Suc it' \<le> size_m v1 \<and> arg_valid v1 arg" if "r = Returned it'" for it'
  proof (cases "size_m v < N")
    case False
    then show ?thesis
      using that assms(5) by (simp add: emplace_full)
  next
    case True
    have "it' = it"
      using emplace_reply[OF True assms(3), of tr arg] that assms(5) by simp
    moreover have "size_m v1 = Suc (size_m v)"
      using emplace_size[OF True, of tr it arg] assms(5) by simp
    ultimately show ?thesis
      using assms(3,4) by (auto simp: arg_valid_def split: cref.splits)
  qed
  then show ?thesis
    using inv1 live1 by blast
qed

lemma insert_count_loop_all_live:
  "vector_inv N v \<Longrightarrow> all_live v \<Longrightarrow> it \<le> size_m v \<Longrightarrow> arg_valid v arg \<Longrightarrow>
   all_live (snd (insert_count_loop tr N v it count arg))"
proof (induction count arbitrary: v it)
  case 0
  then show ?case by simp
next
  case (Suc count)
  obtain r v1 where e: "emplace tr N v it arg = (r, v1)"
    by (cases "emplace tr N v it arg")
  note s = emplace_step[OF Suc.prems e]
  show ?case
  proof (cases r)
    case (Returned it')
    then show ?thesis
      using Suc.IH[of v1 "Suc it'"] s by (simp add: insert_v_def e)
  next
    case (Thrown exn)
    then show ?thesis using s by (simp add: insert_v_def e)
  next
    case Undefined_behaviour
    then show ?thesis using s by (simp add: insert_v_def e)
  qed
qed

lemma insert_range_loop_all_live:
  "vector_inv N v \<Longrightarrow> all_live v \<Longrightarrow> it \<le> size_m v \<Longrightarrow>
   all_live (snd (insert_range_loop tr N v it xs))"
proof (induction xs arbitrary: v it)
  case Nil
  then show ?case by simp
next
  case (Cons x xs)
  obtain r v1 where e: "emplace tr N v it (External x) = (r, v1)"
    by (cases "emplace tr N v it (External x)")
  have valid: "arg_valid v (External x)"
    by (simp add: arg_valid_def)
  note s = emplace_step[OF Cons.prems valid e]
  show ?case
  proof (cases r)
    case (Returned it')
    then show ?thesis
      using Cons.IH[of v1 "Suc it'"] s by (simp add: insert_v_def e)
  next
    case (Thrown exn)
    then show ?thesis using s by (simp add: insert_v_def e)
  next
    case Undefined_behaviour
    then show ?thesis using s by (simp add: insert_v_def e)
  qed
qed

lemma insert_range_loop_spec:
  assumes "implicit_lifetime tr"
  shows "vector_inv N v \<Longrightarrow> all_live v \<Longrightarrow> it \<le> size_m v \<Longrightarrow>
         fst (insert_range_loop tr N v it ys) =
           (if size_m v + length ys \<le> N then Returned (it + length ys)
            else Thrown CapacityExceeded) \<and>
         contents (snd (insert_range_loop tr N v it ys)) =
           take it (contents v) @ map Some (take (N - size_m v) ys) @ drop it (contents v) \<and>
         size_m (snd (insert_range_loop tr N v it ys)) = min N (size_m v + length ys)"
proof (induction ys arbitrary: v it)
  case Nil
  then show ?case by (simp add: vector_inv_def)
next
  case (Cons x rest)
  show ?case
  proof (cases "size_m v < N")
    case False
    then have full: "N \<le> size_m v"
      by simp
    have stop: "insert_range_loop tr N v it (x # rest) = (Thrown CapacityExceeded, v)"
      by (simp add: insert_v_def emplace_full[OF full])
    have sz: "size_m v = N"
      using full Cons.prems(1) by (simp add: vector_inv_def)
    have "fst (Thrown CapacityExceeded :: nat reply, v) =
            (if size_m v + length (x # rest) \<le> N then Returned (it + length (x # rest))
             else Thrown CapacityExceeded)"
      using sz by simp
    moreover have "contents (snd (Thrown CapacityExceeded :: nat reply, v)) =
            take it (contents v) @ map Some (take (N - size_m v) (x # rest)) @ drop it (contents v)"
      using sz by simp
    moreover have "size_m (snd (Thrown CapacityExceeded :: nat reply, v)) =
            min N (size_m v + length (x # rest))"
      using sz by simp
    ultimately show ?thesis
      unfolding stop by blast
  next
    case True
    obtain v1 where v1: "v1 = snd (emplace tr N v it (External x))"
      by simp
    have e: "emplace tr N v it (External x) = (Returned it, v1)"
      using emplace_returns_implicit_lifetime[OF Cons.prems(1,2) assms True Cons.prems(3), of x]
      by (simp add: prod_eq_iff v1)
    have step: "insert_range_loop tr N v it (x # rest) = insert_range_loop tr N v1 (Suc it) rest"
      by (simp add: insert_v_def e)
    have inv1: "vector_inv N v1"
      unfolding v1 by (rule emplace_inv[OF Cons.prems(1)])
    have live1: "all_live v1"
      unfolding v1 by (rule emplace_all_live[OF Cons.prems]) (simp add: arg_valid_def)
    have sz1: "size_m v1 = Suc (size_m v)"
      unfolding v1 by (rule emplace_size[OF True])
    have it1: "Suc it \<le> size_m v1"
      using Cons.prems(3) sz1 by simp
    have c1: "contents v1 = take it (contents v) @ Some x # drop it (contents v)"
      unfolding v1 by (rule emplace_contents[OF Cons.prems(1) True Cons.prems(3)])
    have lenc: "length (contents v) = size_m v"
      using Cons.prems(1) by (simp add: contents_def vector_inv_def)
    have tk: "take (Suc it) (contents v1) = take it (contents v) @ [Some x]"
      using lenc Cons.prems(3) by (simp add: c1)
    have dr: "drop (Suc it) (contents v1) = drop it (contents v)"
      using lenc Cons.prems(3) by (simp add: c1)
    have ys: "take (N - size_m v) (x # rest) = x # take (N - Suc (size_m v)) rest"
    proof -
      have "N - size_m v = Suc (N - Suc (size_m v))"
        using True by simp
      then show ?thesis
        by (simp only: take_Suc_Cons)
    qed
    show ?thesis
      unfolding step using Cons.IH[OF inv1 live1 it1] True
      by (simp add: sz1 tk dr ys)
  qed
qed

lemma insert_count_loop_as_range:
  "insert_count_loop tr N v it count (External x) = insert_range_loop tr N v it (replicate count x)"
  by (induction count arbitrary: v it) (simp_all split: prod.splits reply.splits)

lemma insert_what_fits_implicit_lifetime:
  assumes "implicit_lifetime tr" and "vector_inv N v" and "all_live v" and "pos \<le> size_v v"
  shows "contents (snd (insert_range tr N v pos ys)) =
           take pos (contents v) @ map Some (take (N - size_v v) ys) @ drop pos (contents v) \<and>
         (size_v v + length ys \<le> N \<longrightarrow>
            fst (insert_range tr N v pos ys) = Returned (pos + length ys)) \<and>
         (size_v v + length ys > N \<longrightarrow>
            fst (insert_range tr N v pos ys) = Thrown CapacityExceeded \<and>
            size_v (snd (insert_range tr N v pos ys)) = N) \<and>
         insert_initializer_list tr N v pos ys = insert_range tr N v pos ys \<and>
         contents (snd (insert_count tr N v pos count (External x))) =
           take pos (contents v) @ replicate (min count (N - size_v v)) (Some x) @
           drop pos (contents v) \<and>
         (size_v v + count \<le> N \<longrightarrow>
            fst (insert_count tr N v pos count (External x)) = Returned (pos + count)) \<and>
         (size_v v + count > N \<longrightarrow>
            fst (insert_count tr N v pos count (External x)) = Thrown CapacityExceeded \<and>
            size_v (snd (insert_count tr N v pos count (External x))) = N)"
proof -
  have pos: "pos \<le> size_m v"
    using assms(4) by (simp add: size_v_def)
  note r = insert_range_loop_spec[OF assms(1,2,3) pos, of ys]
  note c = insert_range_loop_spec[OF assms(1,2,3) pos, of "replicate count x"]
  have range: "contents (snd (insert_range tr N v pos ys)) =
              take pos (contents v) @ map Some (take (N - size_v v) ys) @ drop pos (contents v) \<and>
            (size_v v + length ys \<le> N \<longrightarrow>
               fst (insert_range tr N v pos ys) = Returned (pos + length ys)) \<and>
            (size_v v + length ys > N \<longrightarrow>
               fst (insert_range tr N v pos ys) = Thrown CapacityExceeded \<and>
               size_v (snd (insert_range tr N v pos ys)) = N)"
    using r by (simp add: insert_range_def pos_defs size_v_def)
  have cnt: "contents (snd (insert_count tr N v pos count (External x))) =
           take pos (contents v) @ replicate (min count (N - size_v v)) (Some x) @
           drop pos (contents v) \<and>
         (size_v v + count \<le> N \<longrightarrow>
            fst (insert_count tr N v pos count (External x)) = Returned (pos + count)) \<and>
         (size_v v + count > N \<longrightarrow>
            fst (insert_count tr N v pos count (External x)) = Thrown CapacityExceeded \<and>
            size_v (snd (insert_count tr N v pos count (External x))) = N)"
    using c by (simp add: insert_count_def insert_count_loop_as_range pos_defs size_v_def min.commute)
  show ?thesis
    using range cnt by (simp add: insert_initializer_list_def)
qed

lemma insert_initializer_list_example:
  "insert_initializer_list trivial 10 ex_5 1 [2, 3, 5, 4, 4, 2, 5] =
     insert_range trivial 10 ex_5 1 [2, 3, 5, 4, 4, 2, 5] \<and>
   fst (insert_range trivial 10 ex_5 1 [2, 3, 5, 4, 4, 2, 5]) = Returned 8 \<and>
   contents (snd (insert_range trivial 10 ex_5 1 [2, 3, 5, 4, 4, 2, 5])) =
     map Some [5, 2, 3, 5, 4, 4, 2, 5]"
proof -
  have a: "implicit_lifetime trivial" "vector_inv 10 ex_5" "all_live ex_5" "1 \<le> size_v ex_5"
    by (simp_all add: trivial_def vector_inv_def ex_5_def size_v_def all_live_def contents_def)
  have s: "size_v ex_5 = 1" "contents ex_5 = [Some 5]"
    by (simp_all add: size_v_def contents_def ex_5_def)
  show ?thesis
    using s insert_what_fits_implicit_lifetime[OF a, of "[2, 3, 5, 4, 4, 2, 5]" 0 0]
    by simp
qed

text \<open>
  C3 fails on the code in two ways.

  The overload taking \<open>count\<close> copies of \<^verbatim>\<open>value\<close> holds \<^verbatim>\<open>value\<close> by reference and reads it
  again in every \<^verbatim>\<open>insert\<close>, after that call has shifted the elements. When \<^verbatim>\<open>value\<close> is
  an element of the vector, what is inserted is whatever lies in its slot by then: on
  the vector 1, 2, 3 of capacity 5 over \<^verbatim>\<open>int\<close>, \<^verbatim>\<open>insert(begin(), 2, v[2])\<close> returns with
  the contents 2, 1, 1, 2, 3, not with two copies of 3 before 1, 2, 3.

  Every insertion before the end runs the shift of \<^verbatim>\<open>emplace\<close>, which for an element
  type that is not an implicit-lifetime type assigns to the unconstructed slot at
  \<open>end()\<close> (see C1): inserting the range 7 at \<open>begin() + 1\<close> into the vector 1, 2, 3 of
  capacity 4 has undefined behaviour.

  For an implicit-lifetime element type and values outside the vector the insertions do
  what C3 says (\<open>insert_what_fits_implicit_lifetime\<close>).
\<close>

theorem insert_count_reads_shifted_value:
  "deref ex_123_of_5 2 = Some 3 \<and>
   insert_count trivial 5 ex_123_of_5 0 2 (Element 2) =
     (Returned 2,
      \<lparr>storage_m = [Some 2, Some 1, Some 1, Some 2, Some 3], size_m = 5, max_size_m = 5\<rparr>) \<and>
   contents (snd (insert_count trivial 5 ex_123_of_5 0 2 (Element 2))) \<noteq>
     [Some 3, Some 3, Some 1, Some 2, Some 3] \<and>
   fst (insert_range nontrivial 4 ex_123 1 [7]) = Undefined_behaviour"
proof -
  have n2: "(2::nat) = Suc (Suc 0)"
    by simp
  have a: "insert_count trivial 5 ex_123_of_5 0 2 (Element 2) =
     (Returned 2,
      \<lparr>storage_m = [Some 2, Some 1, Some 1, Some 2, Some 3], size_m = 5, max_size_m = 5\<rparr>)"
    unfolding insert_count_def n2
    by (simp add: insert_v_def emplace_def Let_def pos_defs ex_123_of_5_def trivial_def
        move_backward_step move_backward_stop assignment_defined_def read_slot_def arg_value_def)
  have "fst (emplace nontrivial 4 ex_123 1 (External 7)) = Undefined_behaviour"
    by (rule emplace_undefined_shift) (simp_all add: nontrivial_def ex_123_def read_slot_def)
  then have b: "fst (insert_range nontrivial 4 ex_123 1 [7]) = Undefined_behaviour"
    by (cases "emplace nontrivial 4 ex_123 1 (External 7)")
      (simp add: insert_range_def insert_v_def pos_defs)
  show ?thesis
    using a b by (simp add: deref_def read_slot_def ex_123_of_5_def contents_def)
qed

subsection \<open>Erasing a range\<close>

lemma erase_range_fst: "fst (erase_range tr v first last_it) = first"
  by (simp add: erase_range_def Let_def pos_defs)

lemma erase_range_size: "size_m (snd (erase_range tr v first last_it)) = size_m v - (last_it - first)"
  by (simp add: erase_range_def Let_def)

lemma erase_range_length:
  "length (storage_m (snd (erase_range tr v first last_it))) = length (storage_m v)"
  by (simp add: erase_range_def Let_def length_move_range length_destroy_loop)

lemma erase_range_max_size: "max_size_m (snd (erase_range tr v first last_it)) = max_size_m v"
  by (simp add: erase_range_def Let_def)

lemma erase_range_nth:
  assumes "size_m v \<le> length (storage_m v)" and "first \<le> last_it" and "last_it \<le> size_m v"
    and "i < length (storage_m v)"
  shows "storage_m (snd (erase_range tr v first last_it)) ! i =
           (if \<not> default_constructible tr \<and> first \<le> i \<and> i < size_m v then None
            else if first \<le> i \<and> i + (last_it - first) < size_m v
                 then storage_m v ! (i + (last_it - first))
            else storage_m v ! i)"
proof (cases "first < size_m v")
  case False
  then show ?thesis
    using assms by (auto simp: erase_range_def Let_def pos_defs)
next
  case True
  have mv: "move_range (storage_m v) (first + (last_it - first)) (size_m v) first ! i =
      (if first \<le> i \<and> i + (last_it - first) < size_m v then storage_m v ! (i + (last_it - first))
       else storage_m v ! i)"
    by (rule move_range_nth[OF assms(1) assms(4)])
  show ?thesis
    using True assms(4) mv
    by (simp add: erase_range_def Let_def pos_defs destroy_loop_nth length_move_range)
qed

lemma erase_range_default_constructible:
  assumes "vector_inv N v" and "first \<le> last_it" and "last_it \<le> size_v v"
    and "default_constructible tr"
  shows "fst (erase_range tr v first last_it) = first \<and>
         size_v (snd (erase_range tr v first last_it)) + (last_it - first) = size_v v \<and>
         contents (snd (erase_range tr v first last_it)) =
           take first (contents v) @ drop last_it (contents v)"
proof -
  let ?v' = "snd (erase_range tr v first last_it)"
  have len: "size_m v \<le> length (storage_m v)" and l: "last_it \<le> size_m v"
    using assms by (simp_all add: vector_inv_def size_v_def)
  have "contents ?v' = take first (contents v) @ drop last_it (contents v)"
  proof (rule nth_equalityI)
    show "length (contents ?v') = length (take first (contents v) @ drop last_it (contents v))"
      using len l assms(2) by (simp add: contents_def erase_range_size erase_range_length)
    fix i assume "i < length (contents ?v')"
    then have i: "i < size_m v - (last_it - first)"
      by (simp add: contents_def erase_range_size)
    then have iN: "i < length (storage_m v)"
      using len by simp
    show "contents ?v' ! i = (take first (contents v) @ drop last_it (contents v)) ! i"
      using i len l assms(2,4) erase_range_nth[OF len assms(2) l iN, of tr]
      by (auto simp: contents_def erase_range_size nth_append min_def add.commute)
  qed
  then show ?thesis
    using l assms(2) by (simp add: erase_range_fst erase_range_size size_v_def)
qed

lemma erase_range_example:
  "contents (snd (erase_range trivial ex_12345 1 3)) = [Some 1, Some 4, Some 5]"
proof -
  have "vector_inv 5 ex_12345" "(1::nat) \<le> 3" "3 \<le> size_v ex_12345" "default_constructible trivial"
    by (simp_all add: vector_inv_def ex_12345_def size_v_def trivial_def)
  from erase_range_default_constructible[OF this] show ?thesis
    by (simp add: contents_def ex_12345_def)
qed

lemma erase_range_not_default_constructible:
  assumes "vector_inv N v" and "first \<le> last_it" and "last_it \<le> size_v v"
    and "\<not> default_constructible tr"
  shows "contents (snd (erase_range tr v first last_it)) =
           take first (contents v) @ replicate (size_v v - last_it) None"
proof -
  let ?v' = "snd (erase_range tr v first last_it)"
  have len: "size_m v \<le> length (storage_m v)" and l: "last_it \<le> size_m v"
    using assms by (simp_all add: vector_inv_def size_v_def)
  show ?thesis
  proof (rule nth_equalityI)
    show "length (contents ?v') = length (take first (contents v) @ replicate (size_v v - last_it) None)"
      using len l assms(2) by (simp add: contents_def erase_range_size erase_range_length size_v_def)
    fix i assume "i < length (contents ?v')"
    then have i: "i < size_m v - (last_it - first)"
      by (simp add: contents_def erase_range_size)
    then have iN: "i < length (storage_m v)"
      using len by simp
    show "contents ?v' ! i = (take first (contents v) @ replicate (size_v v - last_it) None) ! i"
      using i len l assms(2,4) erase_range_nth[OF len assms(2) l iN, of tr]
      by (auto simp: contents_def erase_range_size nth_append min_def size_v_def)
  qed
qed

text \<open>
  C4 fails on the code for an element type without a default constructor: the loop after the shift in
  \<^verbatim>\<open>erase(first, last)\<close> runs the destructor of every slot from \<open>first\<close> to the old end,
  the elements just shifted into the gap included. On contents 1, 2, 3, 4, 5,
  \<^verbatim>\<open>erase(begin()+1, begin()+3)\<close> returns \<open>begin()+1\<close> and leaves a count of 3, but of the
  three counted slots only the first still holds an element: the elements 4 and 5 that
  belong at indices 1 and 2 have been destroyed. For an element type with a
  default constructor the loop is compiled out and the claim holds
  (\<open>erase_range_default_constructible\<close>, \<open>erase_range_example\<close>).
\<close>

theorem erase_range_destroys_shifted_elements:
  "erase_range nontrivial ex_12345 1 3 =
     (1, \<lparr>storage_m = [Some 1, None, None, None, None], size_m = 3, max_size_m = 5\<rparr>) \<and>
   contents (snd (erase_range nontrivial ex_12345 1 3)) = [Some 1, None, None] \<and>
   contents (snd (erase_range nontrivial ex_12345 1 3)) \<noteq> [Some 1, Some 4, Some 5]"
  by (simp add: erase_range_def Let_def pos_defs ex_12345_def nontrivial_def contents_def
      move_range.simps destroy_loop.simps read_slot_def)

subsection \<open>clear\<close>

lemma pop_back_inv: "vector_inv N v \<Longrightarrow> vector_inv N (pop_back tr v)"
  by (auto simp: pop_back_def Let_def vector_inv_def)

lemma clear_loop_inv: "vector_inv N v \<Longrightarrow> vector_inv N (clear_loop tr v)"
proof (induction tr v rule: clear_loop.induct)
  case (1 tr v)
  then show ?case
    by (subst clear_loop.simps) (simp add: pop_back_inv)
qed

lemma clear_loop_size: "size_m (clear_loop tr v) = 0"
proof (induction tr v rule: clear_loop.induct)
  case (1 tr v)
  then show ?case
    by (subst clear_loop.simps) simp
qed

lemma clear_loop_nth:
  "\<not> trivially_destructible tr \<Longrightarrow> size_m v \<le> length (storage_m v) \<Longrightarrow> i < length (storage_m v) \<Longrightarrow>
   storage_m (clear_loop tr v) ! i = (if i < size_m v then None else storage_m v ! i)"
proof (induction tr v rule: clear_loop.induct)
  case (1 tr v)
  show ?case
  proof (cases "size_m v > 0")
    case False
    then show ?thesis by (subst clear_loop.simps) simp
  next
    case True
    have p: "size_m (pop_back tr v) = size_m v - 1"
      "storage_m (pop_back tr v) = (storage_m v)[size_m v - 1 := None]"
      using True "1.prems"(1) by (simp_all add: pop_back_def Let_def ptr_at_def)
    have "storage_m (clear_loop tr (pop_back tr v)) ! i =
          (if i < size_m (pop_back tr v) then None else storage_m (pop_back tr v) ! i)"
      using "1.IH"[OF True "1.prems"(1)] "1.prems"(2,3) p by simp
    then show ?thesis
      using True "1.prems"(2,3) p
      by (subst clear_loop.simps) (auto simp: nth_list_update)
  qed
qed

lemma clear_inv: "vector_inv N v \<Longrightarrow> vector_inv N (clear tr v)"
  by (simp add: clear_def clear_loop_inv) (simp add: vector_inv_def)

lemma clear_size: "size_m (clear tr v) = 0"
  by (simp add: clear_def clear_loop_size)

lemma clear_contents: "contents (clear tr v) = []"
  by (simp add: contents_def clear_size)

lemma clear_destroys:
  assumes "\<not> trivially_destructible tr" and "vector_inv N v" and "i < size_m v"
  shows "deref (clear tr v) i = None"
proof -
  have len: "size_m v \<le> length (storage_m v)" "i < length (storage_m v)"
    using assms by (simp_all add: vector_inv_def)
  have "length (storage_m (clear_loop tr v)) = length (storage_m v)"
    using clear_loop_inv[OF assms(2)] assms(2) by (simp add: vector_inv_def)
  then show ?thesis
    using assms clear_loop_nth[OF assms(1) len] len
    by (simp add: clear_def deref_def read_slot_def)
qed

subsection \<open>Copying and moving the elements of another vector\<close>

lemma emplace_back_inv: "vector_inv N v \<Longrightarrow> vector_inv N (snd (emplace_back tr N v arg))"
  by (simp add: emplace_back_def emplace_inv)

lemma emplace_back_each_inv:
  "vector_inv N d \<Longrightarrow>
   (\<forall>d'. emplace_back_each tr N d s i = Returns d' \<longrightarrow> vector_inv N d') \<and>
   (\<forall>e d'. emplace_back_each tr N d s i = Throws e d' \<longrightarrow> vector_inv N d')"
proof (induction tr N d s i rule: emplace_back_each.induct)
  case (1 tr N this other i)
  show ?case
  proof (cases "i < size_m other")
    case False
    then show ?thesis
      using "1.prems" by (subst emplace_back_each.simps, subst (2) emplace_back_each.simps) simp
  next
    case True
    show ?thesis
    proof (cases "deref other (ptr_at i)")
      case None
      then show ?thesis
        using True by (subst emplace_back_each.simps, subst (2) emplace_back_each.simps) simp
    next
      case (Some x)
      obtain r this' where eb: "emplace_back tr N this (External x) = (r, this')"
        by (cases "emplace_back tr N this (External x)")
      have inv': "vector_inv N this'"
        using emplace_back_inv[OF "1.prems", of tr "External x"] eb by simp
      show ?thesis
      proof (cases r)
        case (Returned p)
        have "(\<forall>d'. emplace_back_each tr N this' other (Suc i) = Returns d' \<longrightarrow> vector_inv N d') \<and>
            (\<forall>e d'. emplace_back_each tr N this' other (Suc i) = Throws e d' \<longrightarrow> vector_inv N d')"
          using "1.IH"[OF True Some eb[symmetric] Returned inv'] .
        then show ?thesis
          using True Some eb Returned
          by (subst emplace_back_each.simps, subst (2) emplace_back_each.simps) simp
      next
        case (Thrown e)
        then show ?thesis
          using True Some eb inv'
          by (subst emplace_back_each.simps, subst (2) emplace_back_each.simps) simp
      next
        case Undefined_behaviour
        then show ?thesis
          using True Some eb
          by (subst emplace_back_each.simps, subst (2) emplace_back_each.simps) simp
      qed
    qed
  qed
qed

lemma emplace_back_each_spec:
  assumes "vector_inv N s" and "all_live s"
  shows "vector_inv N d \<Longrightarrow> size_m d = i \<Longrightarrow> i \<le> size_m s \<Longrightarrow> contents d = take i (contents s) \<Longrightarrow>
         \<exists>d'. emplace_back_each tr N d s i = Returns d' \<and> vector_inv N d' \<and>
              size_m d' = size_m s \<and> contents d' = contents s"
proof (induction "size_m s - i" arbitrary: d i)
  case 0
  then have "i = size_m s" by simp
  moreover have "take (size_m s) (contents s) = contents s"
    by (simp add: contents_def)
  ultimately show ?case
    using "0.prems" by (subst emplace_back_each.simps) simp
next
  case (Suc n)
  have lt: "i < size_m s" using Suc.hyps(2) by simp
  have lens: "size_m s \<le> length (storage_m s)" and sN: "size_m s \<le> N"
    using assms(1) by (simp_all add: vector_inv_def)
  obtain x where x': "storage_m s ! i = Some x"
    using all_live_nth[OF assms(2) lens lt] by blast
  then have x: "deref s i = Some x"
    using lt lens by (simp add: deref_def read_slot_def)
  have ci: "contents s ! i = Some x"
    using x' lt by (simp add: contents_def)
  have room: "size_m d < N"
    using Suc.prems(2) lt sN by simp
  obtain d1 where d1: "d1 = snd (emplace_back tr N d (External x))"
    by simp
  have eb: "emplace_back tr N d (External x) = (Returned i, d1)"
    using emplace_returns_at_end[OF room, of tr x] Suc.prems(2)
    by (simp add: emplace_back_def pos_defs prod_eq_iff d1)
  have inv1: "vector_inv N d1"
    unfolding d1 by (rule emplace_back_inv[OF Suc.prems(1)])
  have sz1: "size_m d1 = Suc i"
    unfolding d1 using emplace_size[OF room, of tr "end_v d" "External x"] Suc.prems(2)
    by (simp add: emplace_back_def)
  have lenc: "length (contents d) = size_m d"
    using Suc.prems(1) by (simp add: contents_def vector_inv_def)
  have "contents d1 = contents d @ [Some x]"
    unfolding d1 using emplace_contents[OF Suc.prems(1) room, of "size_m d" tr x] lenc
    by (simp add: emplace_back_def pos_defs)
  then have c1: "contents d1 = take (Suc i) (contents s)"
    using Suc.prems(4) ci lt lens
    by (simp add: take_Suc_conv_app_nth contents_def)
  have n: "n = size_m s - Suc i" using Suc.hyps(2) by simp
  have le: "Suc i \<le> size_m s" using lt by simp
  have step: "emplace_back_each tr N d s i = emplace_back_each tr N d1 s (Suc i)"
    using lt x eb by (subst emplace_back_each.simps) (simp add: ptr_at_def)
  show ?case
    unfolding step by (rule Suc.hyps(1)[OF n inv1 sz1 le c1])
qed

lemma vector_default_inv: "vector_inv N (vector_default N)"
  by (simp add: vector_inv_def vector_default_def)

lemma vector_default_contents: "contents (vector_default N) = []"
  by (simp add: contents_def vector_default_def)

lemma contents_size_update:
  "size_m v = n \<Longrightarrow> contents (v\<lparr>size_m := n\<rparr>) = contents v"
  by (simp add: contents_def)

lemma elements_from_empty:
  assumes "vector_inv N s" and "all_live s" and "vector_inv N d" and "size_m d = 0"
  shows "\<exists>d'. emplace_back_each tr N d s 0 = Returns d' \<and> vector_inv N d' \<and>
              size_m d' = size_m s \<and> contents d' = contents s"
  using emplace_back_each_spec[OF assms(1,2) assms(3,4)] assms(4)
  by (simp add: contents_def)

subsection \<open>The size invariant\<close>

lemma store_inv: "vector_inv N v \<Longrightarrow> vector_inv N (store v p x)"
  by (simp add: store_def vector_inv_def)

lemma erase_inv: "vector_inv N v \<Longrightarrow> vector_inv N (snd (erase tr v pos))"
proof -
  assume a: "vector_inv N v"
  have "vector_inv N (v\<lparr>storage_m := move_range (storage_m v) (Suc pos) (size_m v) pos\<rparr>)"
    using a by (simp add: vector_inv_def length_move_range)
  then show ?thesis
    using a by (simp add: erase_def Let_def pos_defs pop_back_inv)
qed

lemma erase_range_inv: "vector_inv N v \<Longrightarrow> vector_inv N (snd (erase_range tr v first last_it))"
  by (auto simp: vector_inv_def erase_range_size erase_range_length erase_range_max_size)

lemma insert_range_inv: "vector_inv N v \<Longrightarrow> vector_inv N (snd (insert_range tr N v pos xs))"
  by (simp add: insert_range_def insert_range_loop_inv)

lemma insert_count_inv: "vector_inv N v \<Longrightarrow> vector_inv N (snd (insert_count tr N v pos count arg))"
  by (simp add: insert_count_def insert_count_loop_inv)

lemma emplace_back_all_inv:
  "vector_inv N v \<Longrightarrow> emplace_back_all tr N v args = Returns v' \<Longrightarrow> vector_inv N v'"
proof (induction args arbitrary: v)
  case Nil
  then show ?case by simp
next
  case (Cons x args)
  obtain r v1 where e: "emplace_back tr N v (External x) = (r, v1)"
    by (cases "emplace_back tr N v (External x)")
  have inv1: "vector_inv N v1"
    using emplace_back_inv[OF Cons.prems(1), of tr "External x"] e by simp
  show ?case
  proof (cases r)
    case (Returned p)
    then have "emplace_back_all tr N v1 args = Returns v'"
      using Cons.prems(2) e by simp
    then show ?thesis by (rule Cons.IH[OF inv1])
  next
    case (Thrown exn)
    then show ?thesis using Cons.prems(2) e by simp
  next
    case Undefined_behaviour
    then show ?thesis using Cons.prems(2) e by simp
  qed
qed

lemma vector_args_inv: "vector_args tr N args = Returns v \<Longrightarrow> vector_inv N v"
  unfolding vector_args_def by (rule emplace_back_all_inv[OF vector_default_inv])

lemma size_update_inv: "vector_inv N v \<Longrightarrow> n \<le> N \<Longrightarrow> vector_inv N (v\<lparr>size_m := n\<rparr>)"
  by (simp add: vector_inv_def)

lemma vector_copy_inv:
  assumes "vector_inv N other" and "vector_copy tr N other = Returns v"
  shows "vector_inv N v"
proof -
  have le: "size_m other \<le> N"
    using assms(1) by (simp add: vector_inv_def)
  obtain d where d: "emplace_back_each tr N (vector_default N) other 0 = Returns d"
    and v: "v = d\<lparr>size_m := size_m other\<rparr>"
    using assms(2) by (auto simp: vector_copy_def split: outcome.splits)
  have "vector_inv N d"
    using emplace_back_each_inv[OF vector_default_inv, where tr=tr and s=other and i=0] d by simp
  then show ?thesis
    unfolding v using le by (rule size_update_inv)
qed

lemma vector_move_inv:
  assumes "vector_inv N other" and "vector_move tr N other = Returns (v, w)"
  shows "vector_inv N v \<and> vector_inv N w"
proof -
  have le: "size_m other \<le> N"
    using assms(1) by (simp add: vector_inv_def)
  obtain d where d: "emplace_back_each tr N (vector_default N) other 0 = Returns d"
    and v: "v = d\<lparr>size_m := size_m other\<rparr>" and w: "w = clear tr other"
    using assms(2) by (auto simp: vector_move_def split: outcome.splits)
  have "vector_inv N d"
    using emplace_back_each_inv[OF vector_default_inv, where tr=tr and s=other and i=0] d by simp
  then have "vector_inv N v"
    unfolding v using le by (rule size_update_inv)
  then show ?thesis
    unfolding w using clear_inv[OF assms(1)] by simp
qed

lemma copy_assign_inv:
  assumes "\<forall>a. vector_inv N (h a)"
    and "copy_assign tr N this other h = Returns h' \<or> copy_assign tr N this other h = Throws e h'"
  shows "vector_inv N (h' a)"
proof (cases "this = other")
  case True
  then show ?thesis using assms by (simp add: copy_assign_def)
next
  case False
  have le: "size_m (h other) \<le> N"
    using assms(1) by (simp add: vector_inv_def)
  have c: "vector_inv N (clear tr (h this))"
    using assms(1) by (simp add: clear_inv)
  note each = emplace_back_each_inv[OF c, of tr "h other" 0]
  from assms(2) show ?thesis
  proof
    assume "copy_assign tr N this other h = Returns h'"
    then obtain d where d: "emplace_back_each tr N (clear tr (h this)) (h other) 0 = Returns d"
      and h': "h' = h(this := d\<lparr>size_m := size_m (h other)\<rparr>)"
      using False by (auto simp: copy_assign_def split: outcome.splits)
    have "vector_inv N (d\<lparr>size_m := size_m (h other)\<rparr>)"
      using each d le by (simp add: size_update_inv)
    then show ?thesis
      using assms(1) by (simp add: h')
  next
    assume "copy_assign tr N this other h = Throws e h'"
    then obtain d where d: "emplace_back_each tr N (clear tr (h this)) (h other) 0 = Throws e d"
      and h': "h' = h(this := d)"
      using False by (auto simp: copy_assign_def split: outcome.splits)
    have "vector_inv N d"
      using each d by simp
    then show ?thesis
      using assms(1) by (simp add: h')
  qed
qed

lemma move_assign_inv:
  assumes "\<forall>a. vector_inv N (h a)" and "move_assign tr N this other h = Returns h'"
  shows "vector_inv N (h' a)"
proof (cases "this = other")
  case True
  then show ?thesis using assms by (simp add: move_assign_def)
next
  case False
  have le: "size_m (h other) \<le> N"
    using assms(1) by (simp add: vector_inv_def)
  have c: "vector_inv N (clear tr (h this))" and c': "vector_inv N (clear tr (h other))"
    using assms(1) by (simp_all add: clear_inv)
  obtain d where d: "emplace_back_each tr N (clear tr (h this)) (h other) 0 = Returns d"
    and h': "h' = h(this := d\<lparr>size_m := size_m (h other)\<rparr>, other := clear tr (h other))"
    using False assms(2) by (auto simp: move_assign_def split: outcome.splits)
  have "vector_inv N (d\<lparr>size_m := size_m (h other)\<rparr>)"
    using emplace_back_each_inv[OF c, of tr "h other" 0] d le by (simp add: size_update_inv)
  then show ?thesis
    using assms(1) c' by (simp add: h')
qed

lemma reachable_inv: "reachable tr N h \<Longrightarrow> vector_inv N (h a)"
proof (induction arbitrary: a rule: reachable.induct)
  case r_init
  show ?case by (rule vector_default_inv)
next
  case (r_default h b)
  then show ?case by (simp add: vector_default_inv)
next
  case (r_args h args v b)
  then show ?case by (simp add: vector_args_inv)
next
  case (r_copy h b c v)
  then show ?case using vector_copy_inv[of N "h c" tr v] by simp
next
  case (r_move h b c v w)
  then show ?case using vector_move_inv[of N "h c" tr v w] by simp
next
  case (r_copy_assign h b c h')
  then show ?case using copy_assign_inv[of N h tr b c h'] by blast
next
  case (r_copy_assign_throws h b c e h')
  then show ?case using copy_assign_inv[of N h tr b c h' e] by blast
next
  case (r_move_assign h b c h')
  then show ?case using move_assign_inv[of N h tr b c h'] by blast
next
  case (r_destructor h b)
  then show ?case by (simp add: destructor_def clear_inv)
next
  case (r_store h p b x)
  then show ?case by (simp add: store_inv)
next
  case (r_clear h b)
  then show ?case by (simp add: clear_inv)
next
  case (r_insert h pos b arg)
  then show ?case by (simp add: insert_v_def emplace_inv)
next
  case (r_insert_count h pos b arg count)
  then show ?case by (simp add: insert_count_inv)
next
  case (r_insert_range h pos b xs)
  then show ?case by (simp add: insert_range_inv)
next
  case (r_insert_initializer_list h pos b xs)
  then show ?case by (simp add: insert_initializer_list_def insert_range_inv)
next
  case (r_emplace h pos b arg)
  then show ?case by (simp add: emplace_inv)
next
  case (r_erase h pos b)
  then show ?case by (simp add: erase_inv)
next
  case (r_erase_range h first last_it b)
  then show ?case by (simp add: erase_range_inv)
next
  case (r_push_back h b arg)
  then show ?case by (simp add: push_back_def emplace_inv)
next
  case (r_emplace_back h b arg)
  then show ?case by (simp add: emplace_back_inv)
next
  case (r_pop_back h b)
  then show ?case by (simp add: pop_back_inv)
qed

text \<open>
  C5. In every state a program reaches from default-constructed vectors by the public
  operations, each called within its precondition, every vector satisfies
  \<open>0 \<le> size() \<le> max_size()\<close>, and \<open>max_size()\<close> is \<open>N\<close>.
\<close>

theorem size_within_capacity:
  assumes "reachable tr N h"
  shows "0 \<le> size_v (h a) \<and> size_v (h a) \<le> max_size_v (h a) \<and> max_size_v (h a) = N"
  using reachable_inv[OF assms, of a] by (simp add: vector_inv_def size_v_def max_size_v_def)

theorem size_within_capacity_witness:
  "reachable trivial 2 ex_program \<and>
   size_v (ex_program 0) = 2 \<and> size_v (ex_program 0) \<le> max_size_v (ex_program 0) \<and>
   max_size_v (ex_program 0) = 2"
proof -
  have v: "\<And>w. arg_valid w (External (7::nat))"
    by (simp add: arg_valid_def)
  have r: "reachable trivial 2 ex_program"
    unfolding ex_program_def Let_def
    by (intro r_push_back r_init v)
  have s: "size_v (ex_program 0) = 2"
    by (simp add: ex_program_def Let_def push_back_def emplace_def vector_default_def pos_defs
        size_v_def arg_value_def)
  show ?thesis
    using r s size_within_capacity[OF r, of 0] by simp
qed

subsection \<open>Every counted slot holds an element\<close>

lemma vector_default_all_live: "all_live (vector_default N)"
  by (simp add: all_live_def vector_default_contents)

lemma clear_all_live: "all_live (clear tr v)"
  by (simp add: all_live_def clear_contents)

lemma pop_back_all_live:
  assumes "vector_inv N v" and "all_live v"
  shows "all_live (pop_back tr v)"
proof -
  have len: "size_m v \<le> length (storage_m v)"
    using assms(1) by (simp add: vector_inv_def)
  have live: "\<forall>i < size_m v. storage_m v ! i \<noteq> None"
    using assms(2) len by (simp add: all_live_iff)
  have len': "size_m (pop_back tr v) \<le> length (storage_m (pop_back tr v))"
    using pop_back_inv[OF assms(1), of tr] by (simp add: vector_inv_def)
  have "\<forall>i < size_m (pop_back tr v). storage_m (pop_back tr v) ! i \<noteq> None"
    using live by (auto simp: pop_back_def Let_def ptr_at_def)
  then show ?thesis
    using len' by (simp add: all_live_iff)
qed

lemma store_all_live:
  assumes "vector_inv N v" and "all_live v" and "p < size_m v"
  shows "all_live (store v p x)"
proof -
  have len: "size_m v \<le> length (storage_m v)"
    using assms(1) by (simp add: vector_inv_def)
  have live: "\<forall>i < size_m v. storage_m v ! i \<noteq> None"
    using assms(2) len by (simp add: all_live_iff)
  have "storage_m (store v p x) ! i \<noteq> None" if "i < size_m v" for i
  proof -
    have "p < length (storage_m v)"
      using assms(3) len by simp
    then show ?thesis
      using live that by (simp add: store_def nth_list_update)
  qed
  then show ?thesis
    using len by (simp add: all_live_iff store_def)
qed

lemma erase_all_live:
  assumes "vector_inv N v" and "all_live v"
  shows "all_live (snd (erase tr v pos))"
proof (cases "pos < size_m v")
  case False
  then show ?thesis
    using assms(2) by (simp add: erase_def Let_def pos_defs)
next
  case True
  let ?w = "v\<lparr>storage_m := move_range (storage_m v) (pos + 1) (size_m v) pos\<rparr>"
  have len: "size_m v \<le> length (storage_m v)"
    using assms(1) by (simp add: vector_inv_def)
  have live: "\<forall>i < size_m v. storage_m v ! i \<noteq> None"
    using assms(2) len by (simp add: all_live_iff)
  have invw: "vector_inv N ?w"
    using assms(1) by (simp add: vector_inv_def length_move_range)
  have "storage_m ?w ! i \<noteq> None" if "i < size_m ?w" for i
  proof -
    have i: "i < length (storage_m v)"
      using that len by simp
    show ?thesis
      using move_range_nth[OF len i, of pos 1] live that by auto
  qed
  then have "all_live ?w"
    using len by (simp add: all_live_iff length_move_range)
  then have "all_live (pop_back tr ?w)"
    by (rule pop_back_all_live[OF invw])
  then show ?thesis
    using True by (simp add: erase_def Let_def pos_defs)
qed

lemma erase_range_all_live:
  assumes "default_constructible tr" and "vector_inv N v" and "all_live v"
    and "first \<le> last_it" and "last_it \<le> size_v v"
  shows "all_live (snd (erase_range tr v first last_it))"
proof -
  have "contents (snd (erase_range tr v first last_it)) =
          take first (contents v) @ drop last_it (contents v)"
    using erase_range_default_constructible[OF assms(2,4,5,1)] by simp
  moreover have "list_all (\<lambda>s. s \<noteq> None) (take first (contents v) @ drop last_it (contents v))"
    using assms(3)
    by (auto simp: all_live_def list_all_iff dest: in_set_takeD in_set_dropD)
  ultimately show ?thesis
    by (simp add: all_live_def)
qed

lemma emplace_back_all_live:
  "vector_inv N v \<Longrightarrow> all_live v \<Longrightarrow> emplace_back_all tr N v args = Returns v' \<Longrightarrow> all_live v'"
proof (induction args arbitrary: v)
  case Nil
  then show ?case by simp
next
  case (Cons x args)
  obtain r v1 where e: "emplace tr N v (size_m v) (External x) = (r, v1)"
    by (cases "emplace tr N v (size_m v) (External x)")
  have valid: "arg_valid v (External x)"
    by (simp add: arg_valid_def)
  note s = emplace_step[OF Cons.prems(1,2) le_refl valid e]
  show ?case
  proof (cases r)
    case (Returned p)
    then have "emplace_back_all tr N v1 args = Returns v'"
      using Cons.prems(3) e by (simp add: emplace_back_def pos_defs)
    then show ?thesis
      using Cons.IH[of v1] s by simp
  next
    case (Thrown exn)
    then show ?thesis using Cons.prems(3) e by (simp add: emplace_back_def pos_defs)
  next
    case Undefined_behaviour
    then show ?thesis using Cons.prems(3) e by (simp add: emplace_back_def pos_defs)
  qed
qed

lemma all_live_size_update:
  "contents d = contents s \<Longrightarrow> size_m d = size_m s \<Longrightarrow> all_live s \<Longrightarrow>
   all_live (d\<lparr>size_m := size_m s\<rparr>)"
  by (simp add: all_live_def contents_def)

lemma reachable_all_live:
  "reachable tr N h \<Longrightarrow> default_constructible tr \<Longrightarrow> all_live (h a)"
proof (induction arbitrary: a rule: reachable.induct)
  case r_init
  show ?case by (rule vector_default_all_live)
next
  case (r_default h b)
  then show ?case by (simp add: vector_default_all_live)
next
  case (r_args h args v b)
  have "all_live v"
    using emplace_back_all_live[OF vector_default_inv vector_default_all_live] r_args.hyps(3)
    by (simp add: vector_args_def)
  then show ?case using r_args by simp
next
  case (r_copy h b c v)
  obtain d where "emplace_back_each tr N (vector_default N) (h c) 0 = Returns d"
    "size_m d = size_m (h c)" "contents d = contents (h c)"
    using elements_from_empty[OF reachable_inv[OF r_copy.hyps(1), of c] r_copy.IH[OF r_copy.prems, of c]
        vector_default_inv, where tr=tr]
    by (auto simp: vector_default_def)
  then have "all_live v"
    using r_copy.hyps(3) r_copy.IH[OF r_copy.prems, of c]
    by (auto simp: vector_copy_def all_live_size_update)
  then show ?case using r_copy by simp
next
  case (r_move h b c v w)
  obtain d where "emplace_back_each tr N (vector_default N) (h c) 0 = Returns d"
    "size_m d = size_m (h c)" "contents d = contents (h c)"
    using elements_from_empty[OF reachable_inv[OF r_move.hyps(1), of c] r_move.IH[OF r_move.prems, of c]
        vector_default_inv, where tr=tr]
    by (auto simp: vector_default_def)
  then have "all_live v \<and> all_live w"
    using r_move.hyps(3) r_move.IH[OF r_move.prems, of c]
    by (auto simp: vector_move_def all_live_size_update clear_all_live)
  then show ?case using r_move by simp
next
  case (r_copy_assign h b c h')
  show ?case
  proof (cases "b = c")
    case True
    then show ?thesis using r_copy_assign by (simp add: copy_assign_def)
  next
    case False
    obtain d where "emplace_back_each tr N (clear tr (h b)) (h c) 0 = Returns d"
      "size_m d = size_m (h c)" "contents d = contents (h c)"
      using elements_from_empty[OF reachable_inv[OF r_copy_assign.hyps(1), of c]
          r_copy_assign.IH[OF r_copy_assign.prems, of c]
          clear_inv[OF reachable_inv[OF r_copy_assign.hyps(1), of b], of tr] clear_size, where tr=tr]
      by auto
    then show ?thesis
      using False r_copy_assign.hyps(2) r_copy_assign.IH[OF r_copy_assign.prems]
      by (auto simp: copy_assign_def all_live_size_update)
  qed
next
  case (r_copy_assign_throws h b c e h')
  show ?case
  proof (cases "b = c")
    case True
    then show ?thesis using r_copy_assign_throws by (simp add: copy_assign_def)
  next
    case False
    obtain d where "emplace_back_each tr N (clear tr (h b)) (h c) 0 = Returns d"
      using elements_from_empty[OF reachable_inv[OF r_copy_assign_throws.hyps(1), of c]
          r_copy_assign_throws.IH[OF r_copy_assign_throws.prems, of c]
          clear_inv[OF reachable_inv[OF r_copy_assign_throws.hyps(1), of b], of tr] clear_size, where tr=tr]
      by auto
    then show ?thesis
      using False r_copy_assign_throws.hyps(2) by (simp add: copy_assign_def)
  qed
next
  case (r_move_assign h b c h')
  show ?case
  proof (cases "b = c")
    case True
    then show ?thesis using r_move_assign by (simp add: move_assign_def)
  next
    case False
    obtain d where "emplace_back_each tr N (clear tr (h b)) (h c) 0 = Returns d"
      "size_m d = size_m (h c)" "contents d = contents (h c)"
      using elements_from_empty[OF reachable_inv[OF r_move_assign.hyps(1), of c]
          r_move_assign.IH[OF r_move_assign.prems, of c]
          clear_inv[OF reachable_inv[OF r_move_assign.hyps(1), of b], of tr] clear_size, where tr=tr]
      by auto
    then show ?thesis
      using False r_move_assign.hyps(2) r_move_assign.IH[OF r_move_assign.prems]
      by (auto simp: move_assign_def all_live_size_update clear_all_live)
  qed
next
  case (r_destructor h b)
  then show ?case by (simp add: destructor_def clear_all_live)
next
  case (r_store h p b x)
  then show ?case
    using store_all_live[OF reachable_inv[OF r_store.hyps(1)], of b p x]
    by (simp add: size_v_def)
next
  case (r_clear h b)
  then show ?case by (simp add: clear_all_live)
next
  case (r_insert h pos b arg)
  then show ?case
    using emplace_all_live[OF reachable_inv[OF r_insert.hyps(1)], of b pos arg tr]
    by (simp add: insert_v_def size_v_def)
next
  case (r_insert_count h pos b arg count)
  then show ?case
    using insert_count_loop_all_live[OF reachable_inv[OF r_insert_count.hyps(1)], of b pos arg tr count]
    by (simp add: insert_count_def pos_defs size_v_def)
next
  case (r_insert_range h pos b xs)
  then show ?case
    using insert_range_loop_all_live[OF reachable_inv[OF r_insert_range.hyps(1)], of b pos tr xs]
    by (simp add: insert_range_def pos_defs size_v_def)
next
  case (r_insert_initializer_list h pos b xs)
  then show ?case
    using insert_range_loop_all_live[OF reachable_inv[OF r_insert_initializer_list.hyps(1)],
        of b pos tr xs]
    by (simp add: insert_initializer_list_def insert_range_def pos_defs size_v_def)
next
  case (r_emplace h pos b arg)
  then show ?case
    using emplace_all_live[OF reachable_inv[OF r_emplace.hyps(1)], of b pos arg tr]
    by (simp add: size_v_def)
next
  case (r_erase h pos b)
  then show ?case
    using erase_all_live[OF reachable_inv[OF r_erase.hyps(1)], of b tr pos] by simp
next
  case (r_erase_range h first last_it b)
  then show ?case
    using erase_range_all_live[OF r_erase_range.prems reachable_inv[OF r_erase_range.hyps(1)],
        of b first last_it]
    by simp
next
  case (r_push_back h b arg)
  then show ?case
    using emplace_all_live[OF reachable_inv[OF r_push_back.hyps(1)], of b "size_m (h b)" arg tr]
    by (simp add: push_back_def pos_defs)
next
  case (r_emplace_back h b arg)
  then show ?case
    using emplace_all_live[OF reachable_inv[OF r_emplace_back.hyps(1)], of b "size_m (h b)" arg tr]
    by (simp add: emplace_back_def pos_defs)
next
  case (r_pop_back h b)
  then show ?case
    using pop_back_all_live[OF reachable_inv[OF r_pop_back.hyps(1)], of b tr] by simp
qed

subsection \<open>Moving a vector\<close>

lemma move_leaves_source_empty:
  fixes s :: "'a vector"
  assumes "vector_inv N s" and "all_live s"
  shows "(\<exists>d s'. vector_move tr N s = Returns (d, s') \<and>
            size_v d = size_v s \<and> contents d = contents s \<and> size_v s' = 0 \<and>
            (\<not> trivially_destructible tr \<longrightarrow> (\<forall>i < size_v s. deref s' i = None))) \<and>
         (\<forall>h this other. this \<noteq> other \<and> h other = s \<and> vector_inv N (h this) \<longrightarrow>
            (\<exists>h'. move_assign tr N this other h = Returns h' \<and>
               size_v (h' this) = size_v s \<and> contents (h' this) = contents s \<and>
               size_v (h' other) = 0 \<and>
               (\<not> trivially_destructible tr \<longrightarrow> (\<forall>i < size_v s. deref (h' other) i = None)))) \<and>
         (\<forall>(h :: 'a objects) this. move_assign tr N this this h = Returns h)"
proof (intro conjI allI impI)
  obtain d where d: "emplace_back_each tr N (vector_default N) s 0 = Returns d"
    "size_m d = size_m s" "contents d = contents s"
    using elements_from_empty[OF assms vector_default_inv, where tr=tr]
    by (auto simp: vector_default_def)
  have "vector_move tr N s = Returns (d\<lparr>size_m := size_m s\<rparr>, clear tr s)"
    by (simp add: vector_move_def d(1))
  moreover have "size_v (d\<lparr>size_m := size_m s\<rparr>) = size_v s"
    by (simp add: size_v_def)
  moreover have "contents (d\<lparr>size_m := size_m s\<rparr>) = contents s"
    using d(2,3) by (simp add: contents_size_update)
  moreover have "size_v (clear tr s) = 0"
    by (simp add: size_v_def clear_size)
  moreover have "\<not> trivially_destructible tr \<longrightarrow> (\<forall>i < size_v s. deref (clear tr s) i = None)"
    using clear_destroys[OF _ assms(1)] by (simp add: size_v_def)
  ultimately show "\<exists>d s'. vector_move tr N s = Returns (d, s') \<and>
            size_v d = size_v s \<and> contents d = contents s \<and> size_v s' = 0 \<and>
            (\<not> trivially_destructible tr \<longrightarrow> (\<forall>i < size_v s. deref s' i = None))"
    by blast
next
  fix h :: "'a objects" and this other
  assume a: "this \<noteq> other \<and> h other = s \<and> vector_inv N (h this)"
  then have ne: "this \<noteq> other" and ho: "h other = s" and it: "vector_inv N (h this)"
    by simp_all
  obtain d where d: "emplace_back_each tr N (clear tr (h this)) s 0 = Returns d"
    "size_m d = size_m s" "contents d = contents s"
    using elements_from_empty[OF assms clear_inv[OF it] clear_size, where tr=tr] by auto
  let ?h' = "h(this := d\<lparr>size_m := size_m s\<rparr>, other := clear tr s)"
  have "move_assign tr N this other h = Returns ?h'"
    using ne by (simp add: move_assign_def ho d(1))
  moreover have "size_v (?h' this) = size_v s"
    using ne by (simp add: size_v_def)
  moreover have "contents (?h' this) = contents s"
    using ne d(2,3) by (simp add: contents_size_update)
  moreover have "size_v (?h' other) = 0"
    by (simp add: size_v_def clear_size)
  moreover have "\<not> trivially_destructible tr \<longrightarrow> (\<forall>i < size_v s. deref (?h' other) i = None)"
    using clear_destroys[OF _ assms(1)] by (simp add: size_v_def)
  ultimately show "\<exists>h'. move_assign tr N this other h = Returns h' \<and>
               size_v (h' this) = size_v s \<and> contents (h' this) = contents s \<and>
               size_v (h' other) = 0 \<and>
               (\<not> trivially_destructible tr \<longrightarrow> (\<forall>i < size_v s. deref (h' other) i = None))"
    by blast
next
  fix h :: "'a objects" and this
  show "move_assign tr N this this h = Returns h"
    by (simp add: move_assign_def)
qed

lemma move_in_reachable_state:
  assumes "reachable tr N h" and "default_constructible tr" and "this \<noteq> other"
  shows "(\<exists>d s'. vector_move tr N (h other) = Returns (d, s') \<and>
            size_v d = size_v (h other) \<and> contents d = contents (h other) \<and> size_v s' = 0) \<and>
         (\<exists>h'. move_assign tr N this other h = Returns h' \<and>
            size_v (h' this) = size_v (h other) \<and> contents (h' this) = contents (h other) \<and>
            size_v (h' other) = 0)"
proof -
  note m = move_leaves_source_empty[OF reachable_inv[OF assms(1), of other]
      reachable_all_live[OF assms(1,2), of other], of tr]
  have "this \<noteq> other \<and> h other = h other \<and> vector_inv N (h this)"
    using assms(3) reachable_inv[OF assms(1), of this] by simp
  then show ?thesis
    using m[THEN conjunct1] m[THEN conjunct2, THEN conjunct1, rule_format, of this other h]
    by blast
qed

text \<open>
  C7. Let \<open>s\<close> be a vector of capacity \<open>N\<close> whose counted slots all hold elements. That is
  the invariant of the data model; \<open>reachable_all_live\<close> proves it of every vector a
  program reaches when the element type is default-constructible, and for the other
  element types the range \<^verbatim>\<open>erase\<close> of C4 is what can break it. Move construction from
  \<open>s\<close>, and move assignment from \<open>s\<close> to another object, return normally with a
  destination whose size and contents are those \<open>s\<close> had, and leave \<open>s\<close> with
  \<open>size() = 0\<close>; where the element type has a non-trivial destructor every slot \<open>s\<close> had
  in use now holds no object. Assigning a vector to itself is the no-op the
  specification says it is.
\<close>

theorem move_empties_source:
  fixes s :: "'a vector"
  assumes "vector_inv N s" and "all_live s"
  shows "(\<exists>d s'. vector_move tr N s = Returns (d, s') \<and>
            size_v d = size_v s \<and> contents d = contents s \<and> size_v s' = 0 \<and>
            (\<not> trivially_destructible tr \<longrightarrow> (\<forall>i < size_v s. deref s' i = None))) \<and>
         (\<forall>h this other. this \<noteq> other \<and> h other = s \<and> vector_inv N (h this) \<longrightarrow>
            (\<exists>h'. move_assign tr N this other h = Returns h' \<and>
               size_v (h' this) = size_v s \<and> contents (h' this) = contents s \<and>
               size_v (h' other) = 0 \<and>
               (\<not> trivially_destructible tr \<longrightarrow> (\<forall>i < size_v s. deref (h' other) i = None)))) \<and>
         (\<forall>(h :: 'a objects) this. move_assign tr N this this h = Returns h)"
  using assms by (rule move_leaves_source_empty)

theorem move_empties_source_witness:
  "vector_inv 3 ex_full \<and> all_live ex_full \<and> (0::nat) \<noteq> 1 \<and> ex_objects 1 = ex_full \<and>
   vector_inv 3 (ex_objects 0) \<and> \<not> trivially_destructible nontrivial \<and> (2::nat) < size_v ex_full \<and>
   (\<exists>d s'. vector_move nontrivial 3 ex_full = Returns (d, s') \<and>
      contents d = [Some 1, Some 2, Some 3] \<and> size_v s' = 0 \<and> deref s' 2 = None) \<and>
   (\<exists>h'. move_assign nontrivial 3 0 1 ex_objects = Returns h' \<and>
      contents (h' 0) = [Some 1, Some 2, Some 3] \<and> size_v (h' 1) = 0 \<and> deref (h' 1) 2 = None)"
proof -
  have a: "vector_inv 3 ex_full" and b: "all_live ex_full"
    by (simp_all add: vector_inv_def ex_full_def all_live_def contents_def)
  have c: "(0::nat) \<noteq> 1 \<and> ex_objects 1 = ex_full \<and> vector_inv 3 (ex_objects 0)"
    using a by (simp add: ex_objects_def)
  have t: "\<not> trivially_destructible nontrivial" and i: "(2::nat) < size_v ex_full"
    by (simp_all add: nontrivial_def size_v_def ex_full_def)
  have s: "contents ex_full = [Some 1, Some 2, Some 3]"
    by (simp add: contents_def ex_full_def)
  note m = move_empties_source[OF a b, of nontrivial]
  have "\<exists>d s'. vector_move nontrivial 3 ex_full = Returns (d, s') \<and>
      contents d = [Some 1, Some 2, Some 3] \<and> size_v s' = 0 \<and> deref s' 2 = None"
    using m[THEN conjunct1] t i s by auto
  moreover have "\<exists>h'. move_assign nontrivial 3 0 1 ex_objects = Returns h' \<and>
      contents (h' 0) = [Some 1, Some 2, Some 3] \<and> size_v (h' 1) = 0 \<and> deref (h' 1) 2 = None"
    using m[THEN conjunct2, THEN conjunct1, rule_format, OF c] t i s by auto
  ultimately show ?thesis
    using a b c t i by blast
qed

end
